theory Spec2Isabelle
  imports Main "HOL-Library.Sublist"
begin

section \<open>Data model of the medical case store\<close>

text \<open>
  The interface \<open>MedicalCase\<close> of \<open>services/medicalCasesService.ts\<close>, as printed in
  \<open>SYMPTOM_PERSISTENCE_FIX.md\<close> (lines 45 to 63), with the image and reply records of the
  storage layout in \<open>QUICK_REFERENCE.md\<close> (lines 120 to 162). Optional fields
  (\<open>symptomText?\<close>, \<open>medication?\<close>) are options; \<open>Date.now()\<close> readings are natural
  numbers (milliseconds since the epoch).
\<close>

datatype case_status = PENDING | REVIEWED | RESOLVED

datatype reply_kind = PRESCRIPTION | DOCTOR_NOTE

record MedicalImage =
  imageId :: string
  filename :: string
  base64Data :: string

record DoctorReply =
  replyId :: string
  doctorId :: string
  doctorName :: string
  specialization :: string
  content :: string
  type :: reply_kind
  medication :: "string option"
  timestamp :: nat

record MedicalCase =
  caseId :: string
  patientId :: string
  patientName :: string
  patientAge :: int
  patientPhone :: string
  patientDistrict :: string
  patientState :: string
  symptomText :: "string option"
  images :: "MedicalImage list"
  replies :: "DoctorReply list"
  status :: case_status
  createdAt :: nat
  updatedAt :: nat

section \<open>The browser environment: one storage slot and the console\<close>

text \<open>
  The value held under the key \<open>medicalCases\<close> of \<open>localStorage\<close> is a text. It is
  either the serialization of an array of cases (\<open>Serialized\<close>, what
  \<open>JSON.stringify\<close> writes) or any other text (\<open>Garbage\<close>), which does not parse as
  the expected shape. An absent key is \<open>None\<close>. The console is the list of lines
  written so far; a line carries the ASCII text of the message.
\<close>

datatype stored_value = Serialized "MedicalCase list" | Garbage string

datatype console_line = Console_log string | Console_error string

record world =
  medicalCases :: "stored_value option"
  console :: "console_line list"

datatype js_error = SyntaxError | ReadError string

definition JSON_stringify :: "MedicalCase list \<Rightarrow> stored_value" where
  "JSON_stringify cs = Serialized cs"

fun JSON_parse :: "stored_value \<Rightarrow> js_error + MedicalCase list" where
  "JSON_parse (Serialized cs) = Inr cs"
| "JSON_parse (Garbage s) = Inl SyntaxError"

definition console_error :: "string \<Rightarrow> world \<Rightarrow> world" where
  "console_error msg w = w\<lparr>console := console w @ [Console_error msg]\<rparr>"

definition console_log :: "string \<Rightarrow> world \<Rightarrow> world" where
  "console_log msg w = w\<lparr>console := console w @ [Console_log msg]\<rparr>"

definition setItem :: "stored_value \<Rightarrow> world \<Rightarrow> world" where
  "setItem v w = w\<lparr>medicalCases := Some v\<rparr>"

section \<open>The case store\<close>

text \<open>
  Modelled from the spec: \<open>getAllCases\<close> of \<open>services/medicalCasesService.ts\<close>, which
  is not among the sources. Section 4.1: it returns the full persisted collection in
  storage order and fails soft, "if the persisted value is absent or fails to parse as
  the expected shape, returns an empty sequence rather than raising"; section 7: a parse
  failure ("stored value is missing or not valid serialized data") is "treated as an
  empty collection; logged, never surfaced".
\<close>

definition getAllCases :: "world \<Rightarrow> MedicalCase list \<times> world" where
  "getAllCases w =
     (case medicalCases w of
        None \<Rightarrow> ([], console_error ''Failed to read medical cases'' w)
      | Some v \<Rightarrow>
          (case JSON_parse v of
             Inl e \<Rightarrow> ([], console_error ''Failed to read medical cases'' w)
           | Inr cs \<Rightarrow> (cs, w)))"

text \<open>
  Modelled from the spec: \<open>getCasesByPatient\<close>, not among the sources. Section 4.1:
  "returns the subsequence of getAllCases() whose patientId equals the argument,
  preserving order". The traversal is the one of JavaScript's \<open>Array.prototype.filter\<close>,
  written out as \<open>array_filter\<close>.
\<close>

fun array_filter :: "('a \<Rightarrow> bool) \<Rightarrow> 'a list \<Rightarrow> 'a list" where
  "array_filter p [] = []"
| "array_filter p (x # xs) = (if p x then x # array_filter p xs else array_filter p xs)"

definition getCasesByPatient :: "string \<Rightarrow> world \<Rightarrow> MedicalCase list \<times> world" where
  "getCasesByPatient pid w =
     (let (cs, w1) = getAllCases w
      in (array_filter (\<lambda>c. patientId c = pid) cs, w1))"

text \<open>
  Modelled from the spec: \<open>getCaseById\<close>, not among the sources. Section 4.1: "linear
  lookup by id over the full collection", returning the case or "not found" (\<open>None\<close>).
  The lookup stops at the first case with the id.
\<close>

fun array_find :: "('a \<Rightarrow> bool) \<Rightarrow> 'a list \<Rightarrow> 'a option" where
  "array_find p [] = None"
| "array_find p (x # xs) = (if p x then Some x else array_find p xs)"

definition getCaseById :: "string \<Rightarrow> world \<Rightarrow> MedicalCase option \<times> world" where
  "getCaseById cid w =
     (let (cs, w1) = getAllCases w
      in (array_find (\<lambda>c. caseId c = cid) cs, w1))"

text \<open>
  Modelled from the spec: \<open>saveCaseToStorage\<close>, called by \<open>createSymptomCase\<close> and not
  among the sources. Section 4.1: the new case is appended to the persisted collection,
  and "every write operation triggers a full serialize-and-store of the entire
  collection". The write itself is taken to succeed: the capacity of the storage is not
  part of the model.
\<close>

definition saveCaseToStorage :: "MedicalCase \<Rightarrow> world \<Rightarrow> world" where
  "saveCaseToStorage c w =
     (let (cs, w1) = getAllCases w
      in setItem (JSON_stringify (cs @ [c])) w1)"

subsection \<open>Case identifiers\<close>

text \<open>
  The template literal \<open>`CASE-${patientId}-${Date.now()}`\<close>: the decimal digits of the
  clock reading, most significant first, after the patient id and a hyphen.
\<close>

definition digit_char :: "nat \<Rightarrow> char" where
  "digit_char d = char_of (48 + d)"

function number_toString :: "nat \<Rightarrow> string" where
  "number_toString n =
     (if n < 10 then [digit_char n]
      else number_toString (n div 10) @ [digit_char (n mod 10)])"
  by pat_completeness auto
termination
  by (relation "measure id") auto

declare number_toString.simps [simp del]

definition make_caseId :: "string \<Rightarrow> nat \<Rightarrow> string" where
  "make_caseId pid t = ''CASE-'' @ pid @ ''-'' @ number_toString t"

subsection \<open>Creating a symptom case\<close>

text \<open>
  \<open>createSymptomCase\<close> as printed in \<open>CODE_CHANGES_SUMMARY.md\<close> (lines 22 to 54). The
  function calls \<open>Date.now()\<close> three times: for the id, for \<open>createdAt\<close> and for
  \<open>updatedAt\<close>. The three readings are the parameters \<open>tId\<close>, \<open>tCreated\<close> and
  \<open>tUpdated\<close>, in the order of the calls. The copy of the function in
  \<open>SYMPTOM_PERSISTENCE_FIX.md\<close> (lines 71 to 98) is the same without the
  \<open>console.log\<close> line.
\<close>

definition createSymptomCase ::
  "nat \<Rightarrow> nat \<Rightarrow> nat \<Rightarrow> string \<Rightarrow> string \<Rightarrow> int \<Rightarrow> string \<Rightarrow> string \<Rightarrow> string \<Rightarrow> string
     \<Rightarrow> world \<Rightarrow> MedicalCase \<times> world" where
  "createSymptomCase tId tCreated tUpdated pid pname page pphone pdistrict pstate text w =
     (let cid = make_caseId pid tId;
          newCase = \<lparr>caseId = cid, patientId = pid, patientName = pname,
                     patientAge = page, patientPhone = pphone,
                     patientDistrict = pdistrict, patientState = pstate,
                     symptomText = Some text, images = [], replies = [],
                     status = PENDING, createdAt = tCreated, updatedAt = tUpdated\<rparr>;
          w1 = saveCaseToStorage newCase w;
          w2 = console_log (''Symptom case created: '' @ cid) w1
      in (newCase, w2))"

subsection \<open>Appending a doctor's reply\<close>

text \<open>
  Modelled from the spec: \<open>addDoctorReply\<close>, not among the sources. Section 4.1: it
  "locates the case by id; if absent, signals a not-found condition; otherwise constructs
  a new reply record with a fresh reply id and current timestamp, appends it to that
  case's reply list, sets status to reviewed if not already resolved, sets updatedAt to
  current time, persists the full mutated collection back to storage", and returns the
  updated case or "not found" (\<open>None\<close>). The spec does not say how the reply id is
  generated: \<open>rid\<close> is the id the generator produced for this call, and \<open>now\<close> is the
  current time. The case located is the one \<open>getCaseById\<close> finds, the first with the
  id, and it is changed in place.
\<close>

fun update_first :: "('a \<Rightarrow> bool) \<Rightarrow> ('a \<Rightarrow> 'a) \<Rightarrow> 'a list \<Rightarrow> 'a list" where
  "update_first p f [] = []"
| "update_first p f (x # xs) = (if p x then f x # xs else x # update_first p f xs)"

definition append_reply :: "DoctorReply \<Rightarrow> nat \<Rightarrow> MedicalCase \<Rightarrow> MedicalCase" where
  "append_reply r now c =
     c\<lparr>replies := replies c @ [r],
       status := (if status c = RESOLVED then RESOLVED else REVIEWED),
       updatedAt := now\<rparr>"

definition addDoctorReply ::
  "nat \<Rightarrow> string \<Rightarrow> string \<Rightarrow> string \<Rightarrow> string \<Rightarrow> string \<Rightarrow> string \<Rightarrow> reply_kind
     \<Rightarrow> string option \<Rightarrow> world \<Rightarrow> MedicalCase option \<times> world" where
  "addDoctorReply now rid cid did dname spec body kind med w =
     (let (cs, w1) = getAllCases w
      in case array_find (\<lambda>c. caseId c = cid) cs of
           None \<Rightarrow> (None, w1)
         | Some c \<Rightarrow>
             (let reply = \<lparr>replyId = rid, doctorId = did, doctorName = dname,
                           specialization = spec, content = body, type = kind,
                           medication = med, timestamp = now\<rparr>;
                  cs' = update_first (\<lambda>c. caseId c = cid) (append_reply reply now) cs
              in (Some (append_reply reply now c), setItem (JSON_stringify cs') w1)))"

section \<open>The component SymptomDisplay\<close>

text \<open>
  \<open>components/SymptomDisplay.tsx\<close>. The state of the component is the pair of
  \<open>useState\<close> cells \<open>cases\<close> (initially the empty array) and \<open>loading\<close> (initially
  true).
\<close>

record view =
  cases :: "MedicalCase list"
  loading :: bool

definition initial_view :: view where
  "initial_view = \<lparr>cases = [], loading = True\<rparr>"

text \<open>
  The component imports \<open>getCasesByPatient\<close> from the service module, which is not among
  the sources, and calls it inside \<open>try\<close>. The read is therefore a parameter of
  \<open>loadCases\<close>: a function that either returns the patient's cases or throws.
\<close>

type_synonym reader = "string \<Rightarrow> world \<Rightarrow> (js_error + MedicalCase list) \<times> world"

text \<open>
  The filter callback \<open>(c) => c.symptomText\<close> keeps a case when the value is truthy: a
  string that is present and not empty.
\<close>

fun truthy :: "string option \<Rightarrow> bool" where
  "truthy None = False"
| "truthy (Some s) = (s \<noteq> [])"

text \<open>\<open>loadCases\<close>, lines 44 to 55: the \<open>try\<close> block and the \<open>catch\<close> block.\<close>

definition loadCases :: "reader \<Rightarrow> string \<Rightarrow> world \<times> view \<Rightarrow> world \<times> view" where
  "loadCases rd pid wv =
     (let (w, v) = wv
      in case rd pid w of
           (Inr patientCases, w1) \<Rightarrow>
             (let symptomCases = array_filter (\<lambda>c. truthy (symptomText c)) patientCases
              in (w1, v\<lparr>cases := symptomCases, loading := False\<rparr>))
         | (Inl e, w1) \<Rightarrow>
             (console_error ''Failed to load symptom cases'' w1, v\<lparr>loading := False\<rparr>))"

text \<open>The read the application uses: the store's \<open>getCasesByPatient\<close>, which returns.\<close>

definition store_reader :: reader where
  "store_reader pid w = (let (cs, w1) = getCasesByPatient pid w in (Inr cs, w1))"

subsection \<open>Rendering\<close>

text \<open>
  JavaScript arrays are objects: \<open>slice()\<close> allocates a copy and \<open>reverse()\<close> reverses
  the array it is called on, in place, and returns it. The heap maps the address of an
  array to its contents.
\<close>

record array_heap =
  contents :: "nat \<Rightarrow> MedicalCase list"
  fresh :: nat

definition Array_slice :: "nat \<Rightarrow> array_heap \<Rightarrow> nat \<times> array_heap" where
  "Array_slice a h =
     (fresh h, h\<lparr>contents := (contents h)(fresh h := contents h a), fresh := Suc (fresh h)\<rparr>)"

definition Array_reverse :: "nat \<Rightarrow> array_heap \<Rightarrow> nat \<times> array_heap" where
  "Array_reverse a h = (a, h\<lparr>contents := (contents h)(a := rev (contents h a))\<rparr>)"

text \<open>
  What the component returns, lines 64 to 92: the loading card, the empty-state card
  ("No symptoms recorded yet."), or one card per element of
  \<open>cases.slice().reverse()\<close>, in that order, each with its \<open>key\<close>, the case id
  (line 92).
\<close>

datatype screen = Loading_card | Empty_state | Case_cards "(string \<times> MedicalCase) list"

text \<open>
  \<open>render\<close> places the state array \<open>cases\<close> at address 0 of a heap and evaluates the
  \<open>return\<close> expressions on it. It returns the element the component returns and the
  contents of the state array after rendering.
\<close>

definition render :: "view \<Rightarrow> screen \<times> MedicalCase list" where
  "render v =
     (let h0 = \<lparr>contents = (\<lambda>a. [])(0 := cases v), fresh = 1\<rparr>
      in if loading v then (Loading_card, contents h0 0)
         else if length (contents h0 0) = 0 then (Empty_state, contents h0 0)
         else (let (b, h1) = Array_slice 0 h0;
                   (c, h2) = Array_reverse b h1
               in (Case_cards (map (\<lambda>medicalCase. (caseId medicalCase, medicalCase))
                                 (contents h2 c)),
                   contents h2 0)))"

subsection \<open>What React shows\<close>

text \<open>
  The component returns a \<open>div\<close> in all three cases, so React keeps the root node and
  reconciles its children: the icon and the paragraph of the loading card or of the
  empty-state card, which have no key, or the cards, keyed by case id. A child of the
  root is shown as a widget.
\<close>

datatype widget = Spinner | Loading_text | Person_icon | Empty_text | Card MedicalCase

type_synonym element = "string option \<times> widget"

fun elements :: "screen \<Rightarrow> element list" where
  "elements Loading_card = [(None, Spinner), (None, Loading_text)]"
| "elements Empty_state = [(None, Person_icon), (None, Empty_text)]"
| "elements (Case_cards ks) = map (\<lambda>(k, c). (Some k, Card c)) ks"

text \<open>
  React's reconciliation of a list of children (\<open>reconcileChildrenArray\<close>; React is not
  among the sources, and this is its algorithm as far as keys are concerned). A fiber
  is a child with its index. The first loop walks the old fibers and the new children
  together for as long as their keys agree. If new children and old fibers both remain,
  the remaining old fibers are put into a map, under their key, or under their index when
  they have none, a later fiber replacing an earlier one with the same key
  (\<open>mapRemainingChildren\<close>); every new child then takes the fiber the map holds for
  it, which leaves the map, and at the end the fibers still in the map are deleted. An
  old fiber that was replaced in the map is neither taken nor deleted: its node stays
  in the document. Whether a fiber that is taken is updated or replaced by a new one
  of another element type does not change what is shown, and is not modelled.
\<close>

type_synonym fiber = "nat \<times> element"

datatype map_key = By_key string | By_index nat

definition fiber_key :: "fiber \<Rightarrow> map_key" where
  "fiber_key f = (case fst (snd f) of Some k \<Rightarrow> By_key k | None \<Rightarrow> By_index (fst f))"

fun first_loop :: "fiber list \<Rightarrow> fiber list \<Rightarrow> fiber list \<times> fiber list" where
  "first_loop (old # olds) (new # news) =
     (if fst (snd old) = fst (snd new) then first_loop olds news
      else (old # olds, new # news))"
| "first_loop olds news = (olds, news)"

fun mapRemainingChildren ::
  "fiber list \<Rightarrow> (map_key \<rightharpoonup> fiber) \<Rightarrow> (map_key \<rightharpoonup> fiber)" where
  "mapRemainingChildren [] existingChildren = existingChildren"
| "mapRemainingChildren (f # fs) existingChildren =
     mapRemainingChildren fs (existingChildren(fiber_key f \<mapsto> f))"

fun second_loop ::
  "fiber list \<Rightarrow> (map_key \<rightharpoonup> fiber) \<Rightarrow> fiber list
     \<Rightarrow> fiber list \<times> (map_key \<rightharpoonup> fiber)" where
  "second_loop [] existingChildren taken = (taken, existingChildren)"
| "second_loop (new # news) existingChildren taken =
     (case existingChildren (fiber_key new) of
        None \<Rightarrow> second_loop news existingChildren taken
      | Some f \<Rightarrow> second_loop news (existingChildren(fiber_key new := None)) (f # taken))"

text \<open>
  \<open>reconcileChildrenArray\<close> returns the widgets of the old fibers that are neither
  taken nor deleted.
\<close>

definition reconcileChildrenArray :: "element list \<Rightarrow> element list \<Rightarrow> widget list" where
  "reconcileChildrenArray olds news =
     (let (old_rest, new_rest) = first_loop (enumerate 0 olds) (enumerate 0 news)
      in if new_rest = [] then []
         else if old_rest = [] then []
         else (let existingChildren = mapRemainingChildren old_rest Map.empty;
                   (taken, remaining) = second_loop new_rest existingChildren []
               in map (\<lambda>f. snd (snd f))
                    (filter (\<lambda>f. f \<notin> set taken \<and> remaining (fiber_key f) \<noteq> Some f)
                       old_rest)))"

text \<open>
  The children of the root node in the document: the nodes of the current fibers, which
  after a commit show the new children in their order, and the nodes that no fiber owns
  any more and that stay where they were. Their place among the others is not modelled.
\<close>

record document =
  children :: "element list"
  orphans :: "widget list"

definition empty_root :: document where
  "empty_root = \<lparr>children = [], orphans = []\<rparr>"

definition commit :: "document \<Rightarrow> screen \<Rightarrow> document" where
  "commit d s =
     \<lparr>children = elements s,
      orphans = orphans d @ reconcileChildrenArray (children d) (elements s)\<rparr>"

fun card_of :: "widget \<Rightarrow> MedicalCase list" where
  "card_of (Card c) = [c]"
| "card_of w = []"

definition cards_in_order :: "document \<Rightarrow> MedicalCase list" where
  "cards_in_order d = concat (map (\<lambda>e. card_of (snd e)) (children d))"

definition stale_cards :: "document \<Rightarrow> MedicalCase list" where
  "stale_cards d = concat (map card_of (orphans d))"

text \<open>The keys of the children in the document.\<close>

definition keys_of :: "element list \<Rightarrow> string list" where
  "keys_of es = concat (map (\<lambda>e. case fst e of None \<Rightarrow> [] | Some k \<Rightarrow> [k]) es)"

subsection \<open>The effect and the interval timer\<close>

text \<open>
  The effect of lines 43 to 62 calls \<open>loadCases\<close>, registers it with
  \<open>setInterval(loadCases, 3000)\<close> and returns the cleanup \<open>clearInterval(interval)\<close>.
  The page is a record of the current time, the environment, the state of the component,
  the table of interval timers, the cleanup the mounted component has returned, and a
  trace: the time and patient id of every call of \<open>loadCases\<close>. Time is discrete, and an
  interval timer fires when the time reaches its due time, exactly one period after the
  previous firing.
\<close>

record interval_timer =
  timer_id :: nat
  period :: nat
  due :: nat
  closure_patientId :: string

record page =
  time :: nat
  env :: world
  ui :: view
  timers :: "interval_timer list"
  next_timer_id :: nat
  cleanup :: "nat option"
  trace :: "(nat \<times> string) list"

definition boot :: "nat \<Rightarrow> world \<Rightarrow> page" where
  "boot t0 w = \<lparr>time = t0, env = w, ui = initial_view, timers = [], next_timer_id = 0,
                cleanup = None, trace = []\<rparr>"

definition call_loadCases :: "reader \<Rightarrow> string \<Rightarrow> page \<Rightarrow> page" where
  "call_loadCases rd pid pg =
     (let (w1, v1) = loadCases rd pid (env pg, ui pg)
      in pg\<lparr>env := w1, ui := v1, trace := trace pg @ [(time pg, pid)]\<rparr>)"

definition setInterval :: "string \<Rightarrow> nat \<Rightarrow> page \<Rightarrow> nat \<times> page" where
  "setInterval pid ms pg =
     (next_timer_id pg,
      pg\<lparr>timers := timers pg @ [\<lparr>timer_id = next_timer_id pg, period = ms,
                                   due = time pg + ms, closure_patientId = pid\<rparr>],
         next_timer_id := Suc (next_timer_id pg)\<rparr>)"

definition clearInterval :: "nat \<Rightarrow> page \<Rightarrow> page" where
  "clearInterval i pg = pg\<lparr>timers := filter (\<lambda>t. timer_id t \<noteq> i) (timers pg)\<rparr>"

definition mount :: "reader \<Rightarrow> string \<Rightarrow> page \<Rightarrow> page" where
  "mount rd pid pg =
     (let pg1 = call_loadCases rd pid (pg\<lparr>ui := initial_view\<rparr>);
          (interval, pg2) = setInterval pid 3000 pg1
      in pg2\<lparr>cleanup := Some interval\<rparr>)"

definition unmount :: "page \<Rightarrow> page" where
  "unmount pg =
     (case cleanup pg of
        None \<Rightarrow> pg
      | Some interval \<Rightarrow> (clearInterval interval pg)\<lparr>cleanup := None\<rparr>)"

text \<open>
  One unit of time passes: every timer that is due runs its callback, in the order of
  registration, and is due again one period later.
\<close>

fun fire_due :: "reader \<Rightarrow> interval_timer list \<Rightarrow> page \<Rightarrow> page" where
  "fire_due rd [] pg = pg"
| "fire_due rd (t # ts) pg =
     (if due t = time pg
      then fire_due rd ts (call_loadCases rd (closure_patientId t) pg)
      else fire_due rd ts pg)"

definition rearm :: "nat \<Rightarrow> interval_timer \<Rightarrow> interval_timer" where
  "rearm now t = (if due t = now then t\<lparr>due := due t + period t\<rparr> else t)"

definition tick :: "reader \<Rightarrow> page \<Rightarrow> page" where
  "tick rd pg =
     (let pg1 = pg\<lparr>time := Suc (time pg)\<rparr>;
          pg2 = fire_due rd (timers pg1) pg1
      in pg2\<lparr>timers := map (rearm (time pg2)) (timers pg2)\<rparr>)"

fun advance :: "reader \<Rightarrow> nat \<Rightarrow> page \<Rightarrow> page" where
  "advance rd 0 pg = pg"
| "advance rd (Suc n) pg = tick rd (advance rd n pg)"

section \<open>Reachable stores and sample data\<close>

text \<open>The collection as \<open>getAllCases\<close> reads it.\<close>

definition stored :: "world \<Rightarrow> MedicalCase list" where
  "stored w = fst (getAllCases w)"

text \<open>
  The two write operations of the store, with the clock readings (and, for a reply, the
  generated reply id) each call receives, and the run of a list of them.
\<close>

datatype store_op =
    Create nat nat nat string string int string string string string
  | Reply nat string string string string string string reply_kind "string option"

fun apply_op :: "store_op \<Rightarrow> world \<Rightarrow> world" where
  "apply_op (Create tId tCreated tUpdated pid pname page pphone pdistrict pstate text) w =
     snd (createSymptomCase tId tCreated tUpdated pid pname page pphone pdistrict pstate text w)"
| "apply_op (Reply now rid cid did dname spec body kind med) w =
     snd (addDoctorReply now rid cid did dname spec body kind med w)"

fun run_ops :: "store_op list \<Rightarrow> world \<Rightarrow> world" where
  "run_ops [] w = w"
| "run_ops (x # xs) w = run_ops xs (apply_op x w)"

definition empty_world :: world where
  "empty_world = \<lparr>medicalCases = None, console = []\<rparr>"

text \<open>The patient id and clock reading from which each creation builds its case id.\<close>

fun id_source :: "store_op \<Rightarrow> (string \<times> nat) list" where
  "id_source (Create tId tCreated tUpdated pid pname page pphone pdistrict pstate text) =
     [(pid, tId)]"
| "id_source (Reply now rid cid did dname spec body kind med) = []"

definition id_sources :: "store_op list \<Rightarrow> (string \<times> nat) list" where
  "id_sources ops = concat (map id_source ops)"

text \<open>Reading a decimal numeral back, used to show that \<open>number_toString\<close> is injective.\<close>

definition digit_val :: "char \<Rightarrow> nat" where
  "digit_val c = of_char c - 48"

definition read_digits :: "string \<Rightarrow> nat" where
  "read_digits s = foldl (\<lambda>acc c. 10 * acc + digit_val c) 0 s"

text \<open>
  A symptom case of patient \<open>PAT-1\<close> without replies, with the field values of the
  storage example in \<open>QUICK_REFERENCE.md\<close>, and a store holding only that case.
\<close>

definition sample_case :: MedicalCase where
  "sample_case =
     \<lparr>caseId = ''CASE-PAT-1-1000'', patientId = ''PAT-1'', patientName = ''John Doe'',
      patientAge = 30, patientPhone = ''9876543210'', patientDistrict = ''Hyderabad'',
      patientState = ''Telangana'', symptomText = Some ''cough and cold'', images = [],
      replies = [], status = PENDING, createdAt = 1000, updatedAt = 1000\<rparr>"

definition sample_world :: world where
  "sample_world = \<lparr>medicalCases = Some (Serialized [sample_case]), console = []\<rparr>"

text \<open>A store with five cases: three of patient \<open>PAT-1\<close> with a symptom text (one
  of them empty), one of \<open>PAT-1\<close> without a text, and one of another patient.\<close>

definition busy_world :: world where
  "busy_world =
     \<lparr>medicalCases = Some (Serialized
        [sample_case,
         sample_case\<lparr>caseId := ''CASE-PAT-1-1001'', symptomText := None\<rparr>,
         sample_case\<lparr>caseId := ''CASE-PAT-1-1002'', symptomText := Some []\<rparr>,
         sample_case\<lparr>caseId := ''CASE-PAT-2-1003'', patientId := ''PAT-2''\<rparr>,
         sample_case\<lparr>caseId := ''CASE-PAT-1-1004'', symptomText := Some ''fever''\<rparr>]),
      console = []\<rparr>"



text \<open>The status of a case is determined by whether it has a reply.\<close>

definition status_follows_replies :: "MedicalCase \<Rightarrow> bool" where
  "status_follows_replies c = (status c = (if replies c = [] then PENDING else REVIEWED))"

text \<open>
  The page \<open>n\<close> time units after the component was mounted at time \<open>t0\<close> on a page
  without timers: one timer, due at the next multiple of 3000 after \<open>t0\<close>, and one
  call of \<open>loadCases\<close> at \<open>t0\<close> and at each multiple passed.
\<close>

definition mounted_for :: "nat \<Rightarrow> string \<Rightarrow> nat \<Rightarrow> page \<Rightarrow> bool" where
  "mounted_for t0 pid n pg =
     (time pg = t0 + n
      \<and> timers pg = [\<lparr>timer_id = 0, period = 3000, due = t0 + 3000 * Suc (n div 3000),
                       closure_patientId = pid\<rparr>]
      \<and> cleanup pg = Some 0
      \<and> trace pg = map (\<lambda>k. (t0 + 3000 * k, pid)) [0..<Suc (n div 3000)])"

text \<open>
  The page 2999 time units after the component was mounted at time 0 for \<open>PAT-1\<close> on
  the empty store, when another context has meanwhile written \<open>sample_case\<close>.
\<close>

definition poll_timer :: interval_timer where
  "poll_timer = \<lparr>timer_id = 0, period = 3000, due = 3000, closure_patientId = ''PAT-1''\<rparr>"

definition page_before_poll :: page where
  "page_before_poll =
     \<lparr>time = 2999, env = sample_world, ui = \<lparr>cases = [], loading = False\<rparr>,
      timers = [poll_timer], next_timer_id = 1, cleanup = Some 0,
      trace = [(0, ''PAT-1'')]\<rparr>"

text \<open>
  Two submissions of \<open>PAT-1\<close> at the same clock reading, which get the same case id,
  and a third one later; the component mounted on the first store and polled on the
  second, and what the document shows after each commit.
\<close>

definition twin_world :: world where
  "twin_world = run_ops
     [Create 1000 1000 1000 ''PAT-1'' ''John Doe'' 30 ''9876543210'' ''Hyderabad''
        ''Telangana'' ''cough and cold'',
      Create 1000 1000 1000 ''PAT-1'' ''John Doe'' 30 ''9876543210'' ''Hyderabad''
        ''Telangana'' ''fever''] empty_world"

definition later_world :: world where
  "later_world = apply_op
     (Create 1001 1001 1001 ''PAT-1'' ''John Doe'' 30 ''9876543210'' ''Hyderabad''
        ''Telangana'' ''headache'') twin_world"

definition twin_view :: view where
  "twin_view = snd (loadCases store_reader ''PAT-1'' (twin_world, initial_view))"

definition later_view :: view where
  "later_view = snd (loadCases store_reader ''PAT-1'' (later_world, twin_view))"

definition twin_document :: document where
  "twin_document = commit (commit empty_root Loading_card) (fst (render twin_view))"

definition later_document :: document where
  "later_document = commit twin_document (fst (render later_view))"

section \<open>Properties of the case store\<close>

subsection \<open>Reading and searching\<close>

lemma getAllCases_slot: "medicalCases (snd (getAllCases w)) = medicalCases w"
  by (simp add: getAllCases_def console_error_def split: option.splits sum.splits)

lemma stored_getAllCases: "stored (snd (getAllCases w)) = stored w"
  by (simp add: stored_def getAllCases_def console_error_def split: option.splits sum.splits)

lemma stored_setItem: "stored (setItem (JSON_stringify cs) w) = cs"
  by (simp add: stored_def getAllCases_def setItem_def JSON_stringify_def)

lemma stored_console_log: "stored (console_log m w) = stored w"
  by (simp add: stored_def getAllCases_def console_log_def console_error_def
      split: option.splits sum.splits)

lemma stored_saveCaseToStorage: "stored (saveCaseToStorage c w) = stored w @ [c]"
  by (simp add: saveCaseToStorage_def case_prod_beta stored_setItem) (simp add: stored_def)

lemma slot_saveCaseToStorage:
  "medicalCases (saveCaseToStorage c w) = Some (JSON_stringify (stored w @ [c]))"
  by (simp add: saveCaseToStorage_def case_prod_beta setItem_def stored_def)

lemma array_filter_eq: "array_filter p xs = filter p xs"
  by (induction xs) simp_all

lemma array_find_None: "array_find p xs = None \<longleftrightarrow> (\<forall>x \<in> set xs. \<not> p x)"
  by (induction xs) simp_all



lemma array_find_append_fresh:
  "\<forall>x \<in> set xs. \<not> p x \<Longrightarrow> p y \<Longrightarrow> array_find p (xs @ [y]) = Some y"
  by (induction xs) simp_all

lemma update_first_no_match: "\<forall>x \<in> set xs. \<not> p x \<Longrightarrow> update_first p f xs = xs"
  by (induction xs) simp_all

lemma getCaseById_fst:
  "fst (getCaseById cid w) = array_find (\<lambda>c. caseId c = cid) (stored w)"
  by (simp add: getCaseById_def stored_def case_prod_beta)

lemma append_reply_caseId: "caseId (append_reply r now c) = caseId c"
  by (simp add: append_reply_def)

lemma number_toString_5: "number_toString 5 = ''5''"
  by code_simp

lemma number_toString_1000: "number_toString 1000 = ''1000''"
  by code_simp


subsection \<open>Reply to an existing case\<close>



subsection \<open>Reply to a case that does not exist\<close>

text \<open>
  Claim C3. When no case of the collection has the id \<open>cid\<close>, \<open>addDoctorReply\<close>
  returns the not-found value \<open>None\<close> (a value, not an exception), the storage slot is
  exactly what it was, and the collection read after the call equals the collection read
  before it.
\<close>

theorem addDoctorReply_not_found:
  assumes "cid \<notin> caseId ` set (fst (getAllCases w))"
  shows "fst (addDoctorReply now rid cid did dname spec body kind med w) = None
         \<and> medicalCases (snd (addDoctorReply now rid cid did dname spec body kind med w))
             = medicalCases w
         \<and> fst (getAllCases (snd (addDoctorReply now rid cid did dname spec body kind med w)))
             = fst (getAllCases w)"
proof -
  obtain cs w1 where g: "getAllCases w = (cs, w1)" by (cases "getAllCases w")
  from assms g have "array_find (\<lambda>c. caseId c = cid) cs = None"
    by (auto simp: array_find_None)
  with g have r: "addDoctorReply now rid cid did dname spec body kind med w = (None, w1)"
    by (simp add: addDoctorReply_def)
  have "medicalCases w1 = medicalCases w" using getAllCases_slot [of w] g by simp
  moreover have "fst (getAllCases w1) = cs"
    using stored_getAllCases [of w] g by (simp add: stored_def)
  ultimately show ?thesis using r g by simp
qed

theorem addDoctorReply_not_found_witness:
  "''CASE-DOES-NOT-EXIST'' \<notin> caseId ` set (fst (getAllCases sample_world))
   \<and> fst (addDoctorReply 2000 ''REPLY-1'' ''CASE-DOES-NOT-EXIST'' ''DOC-1'' ''Dr. Smith''
            ''Pulmonologist'' ''Rest'' DOCTOR_NOTE None sample_world) = None
   \<and> medicalCases (snd (addDoctorReply 2000 ''REPLY-1'' ''CASE-DOES-NOT-EXIST'' ''DOC-1''
            ''Dr. Smith'' ''Pulmonologist'' ''Rest'' DOCTOR_NOTE None sample_world))
       = Some (Serialized [sample_case])"
proof -
  have h: "''CASE-DOES-NOT-EXIST'' \<notin> caseId ` set (fst (getAllCases sample_world))"
    by (simp add: getAllCases_def sample_world_def sample_case_def)
  from addDoctorReply_not_found [OF h, where now = 2000 and rid = "''REPLY-1''"
      and did = "''DOC-1''" and dname = "''Dr. Smith''" and spec = "''Pulmonologist''"
      and body = "''Rest''" and kind = DOCTOR_NOTE and med = None]
  show ?thesis using h by (simp add: sample_world_def)
qed

subsection \<open>Cases of one patient\<close>

text \<open>
  Claim C4. \<open>getCasesByPatient p\<close> returns the cases of \<open>getAllCases\<close> whose
  \<open>patientId\<close> is \<open>p\<close>, each as often and in the same relative order as there: it is
  a subsequence of the collection, and it is empty when no case belongs to \<open>p\<close>.
\<close>

theorem getCasesByPatient_subsequence:
  "fst (getCasesByPatient p w) = filter (\<lambda>c. patientId c = p) (fst (getAllCases w))
   \<and> subseq (fst (getCasesByPatient p w)) (fst (getAllCases w))
   \<and> (p \<notin> patientId ` set (fst (getAllCases w)) \<longrightarrow> fst (getCasesByPatient p w) = [])"
proof -
  have eq: "fst (getCasesByPatient p w) = filter (\<lambda>c. patientId c = p) (fst (getAllCases w))"
    by (simp add: getCasesByPatient_def array_filter_eq split: prod.splits)
  have "p \<notin> patientId ` set (fst (getAllCases w))
        \<longrightarrow> filter (\<lambda>c. patientId c = p) (fst (getAllCases w)) = []"
    by (auto simp: filter_empty_conv)
  with eq show ?thesis by simp
qed

theorem getCasesByPatient_subsequence_witness:
  "''PAT-999'' \<notin> patientId ` set (fst (getAllCases sample_world))
   \<and> fst (getCasesByPatient ''PAT-999'' sample_world) = []
   \<and> fst (getCasesByPatient ''PAT-1'' sample_world) = [sample_case]"
proof -
  have h: "''PAT-999'' \<notin> patientId ` set (fst (getAllCases sample_world))"
    by (simp add: getAllCases_def sample_world_def sample_case_def)
  have s: "fst (getAllCases sample_world) = [sample_case]"
    by (simp add: getAllCases_def sample_world_def)
  from getCasesByPatient_subsequence [of "''PAT-999''" sample_world]
    getCasesByPatient_subsequence [of "''PAT-1''" sample_world]
  show ?thesis using h s by (simp add: sample_case_def)
qed

subsection \<open>Reading a missing or malformed value\<close>

text \<open>
  Claim C5. \<open>getAllCases\<close> returns a sequence for every content of the storage slot:
  its result type has no error. When the key is absent, or when the value does not parse
  (\<open>JSON_parse\<close> throws), the sequence is empty, one error line is written to the
  console, and the storage slot is left as it was.
\<close>

theorem getAllCases_fails_soft:
  assumes "medicalCases w = None \<or> (\<exists>v e. medicalCases w = Some v \<and> JSON_parse v = Inl e)"
  shows "fst (getAllCases w) = []
         \<and> medicalCases (snd (getAllCases w)) = medicalCases w
         \<and> (\<exists>msg. console (snd (getAllCases w)) = console w @ [Console_error msg])"
  using assms by (auto simp: getAllCases_def console_error_def)

theorem getAllCases_fails_soft_witness:
  "medicalCases empty_world = None
   \<and> fst (getAllCases empty_world) = []
   \<and> JSON_parse (Garbage ''{not json'') = Inl SyntaxError
   \<and> fst (getAllCases \<lparr>medicalCases = Some (Garbage ''{not json''), console = []\<rparr>) = []
   \<and> console (snd (getAllCases \<lparr>medicalCases = Some (Garbage ''{not json''), console = []\<rparr>))
       = [Console_error ''Failed to read medical cases'']"
proof -
  have h1: "medicalCases empty_world = None
            \<or> (\<exists>v e. medicalCases empty_world = Some v \<and> JSON_parse v = Inl e)"
    by (simp add: empty_world_def)
  have h2: "medicalCases \<lparr>medicalCases = Some (Garbage ''{not json''), console = []\<rparr> = None
            \<or> (\<exists>v e. medicalCases \<lparr>medicalCases = Some (Garbage ''{not json''), console = []\<rparr>
                 = Some v \<and> JSON_parse v = Inl e)"
    by simp
  from getAllCases_fails_soft [OF h1] getAllCases_fails_soft [OF h2]
  show ?thesis by (simp add: empty_world_def getAllCases_def console_error_def)
qed

subsection \<open>Creating a case\<close>

text \<open>
  Claim C2, as amended. \<open>createSymptomCase\<close> returns the case with the id
  \<open>CASE-\<close>patient id\<open>-\<close>first clock reading, the given patient fields, the given symptom
  text, no images, no replies, status \<open>PENDING\<close>, \<open>createdAt\<close> the second and
  \<open>updatedAt\<close> the third clock reading of the call (equal when the clock does not move
  between the two readings); the collection read afterwards is the collection before
  followed by exactly that case, and the storage slot holds its serialization; and
  \<open>getCaseById\<close> with the new id returns the new case when no case of the collection
  had that id before.
\<close>

theorem createSymptomCase_creates:
  "fst (createSymptomCase tId tCreated tUpdated pid pname page pphone pdistrict pstate text w)
     = \<lparr>caseId = make_caseId pid tId, patientId = pid, patientName = pname,
        patientAge = page, patientPhone = pphone, patientDistrict = pdistrict,
        patientState = pstate, symptomText = Some text, images = [], replies = [],
        status = PENDING, createdAt = tCreated, updatedAt = tUpdated\<rparr>
   \<and> (tCreated = tUpdated \<longrightarrow>
        createdAt (fst (createSymptomCase tId tCreated tUpdated pid pname page pphone
                          pdistrict pstate text w))
        = updatedAt (fst (createSymptomCase tId tCreated tUpdated pid pname page pphone
                            pdistrict pstate text w)))
   \<and> fst (getAllCases (snd (createSymptomCase tId tCreated tUpdated pid pname page pphone
                               pdistrict pstate text w)))
       = fst (getAllCases w)
         @ [fst (createSymptomCase tId tCreated tUpdated pid pname page pphone pdistrict
                   pstate text w)]
   \<and> medicalCases (snd (createSymptomCase tId tCreated tUpdated pid pname page pphone
                           pdistrict pstate text w))
       = Some (JSON_stringify (fst (getAllCases w)
         @ [fst (createSymptomCase tId tCreated tUpdated pid pname page pphone pdistrict
                   pstate text w)]))
   \<and> (make_caseId pid tId \<notin> caseId ` set (fst (getAllCases w)) \<longrightarrow>
        fst (getCaseById (make_caseId pid tId)
              (snd (createSymptomCase tId tCreated tUpdated pid pname page pphone pdistrict
                      pstate text w)))
        = Some (fst (createSymptomCase tId tCreated tUpdated pid pname page pphone pdistrict
                       pstate text w)))"
proof -
  define c where "c = \<lparr>caseId = make_caseId pid tId, patientId = pid, patientName = pname,
        patientAge = page, patientPhone = pphone, patientDistrict = pdistrict,
        patientState = pstate, symptomText = Some text, images = [], replies = [],
        status = PENDING, createdAt = tCreated, updatedAt = tUpdated\<rparr>"
  have res: "createSymptomCase tId tCreated tUpdated pid pname page pphone pdistrict pstate text w
       = (c, console_log (''Symptom case created: '' @ make_caseId pid tId)
               (saveCaseToStorage c w))"
    by (simp add: createSymptomCase_def c_def Let_def)
  have fc: "fst (createSymptomCase tId tCreated tUpdated pid pname page pphone pdistrict
                   pstate text w) = c"
    by (simp add: res)
  have st: "stored (snd (createSymptomCase tId tCreated tUpdated pid pname page pphone
                           pdistrict pstate text w)) = stored w @ [c]"
    by (simp add: res stored_console_log stored_saveCaseToStorage)
  have slot: "medicalCases (snd (createSymptomCase tId tCreated tUpdated pid pname page pphone
                                   pdistrict pstate text w))
        = Some (JSON_stringify (stored w @ [c]))"
    by (simp add: res console_log_def slot_saveCaseToStorage)
  have look: "make_caseId pid tId \<notin> caseId ` set (stored w) \<longrightarrow>
        array_find (\<lambda>x. caseId x = make_caseId pid tId) (stored w @ [c]) = Some c"
  proof
    assume "make_caseId pid tId \<notin> caseId ` set (stored w)"
    then have "\<forall>x \<in> set (stored w). \<not> caseId x = make_caseId pid tId"
      by (auto simp: image_iff)
    then show "array_find (\<lambda>x. caseId x = make_caseId pid tId) (stored w @ [c]) = Some c"
      by (rule array_find_append_fresh) (simp add: c_def)
  qed
  show ?thesis
    unfolding fc getCaseById_fst st
    using st slot look unfolding fc by (simp add: stored_def c_def)
qed

theorem createSymptomCase_creates_witness:
  "make_caseId ''PAT-1'' 1000 \<notin> caseId ` set (fst (getAllCases empty_world))
   \<and> fst (createSymptomCase 1000 1000 1000 ''PAT-1'' ''John Doe'' 30 ''9876543210''
            ''Hyderabad'' ''Telangana'' ''cough and cold'' empty_world) = sample_case
   \<and> fst (getCaseById ''CASE-PAT-1-1000''
            (snd (createSymptomCase 1000 1000 1000 ''PAT-1'' ''John Doe'' 30 ''9876543210''
                    ''Hyderabad'' ''Telangana'' ''cough and cold'' empty_world)))
       = Some sample_case
   \<and> medicalCases (snd (createSymptomCase 1000 1000 1000 ''PAT-1'' ''John Doe'' 30
            ''9876543210'' ''Hyderabad'' ''Telangana'' ''cough and cold'' empty_world))
       = Some (Serialized [sample_case])"
proof -
  have h: "make_caseId ''PAT-1'' 1000 \<notin> caseId ` set (fst (getAllCases empty_world))"
    by (simp add: getAllCases_def empty_world_def)
  have e: "fst (getAllCases empty_world) = []"
    by (simp add: getAllCases_def empty_world_def)
  from createSymptomCase_creates [of 1000 1000 1000 "''PAT-1''" "''John Doe''" 30
      "''9876543210''" "''Hyderabad''" "''Telangana''" "''cough and cold''" empty_world]
  show ?thesis
    using h e by (simp add: make_caseId_def number_toString_1000 sample_case_def
        JSON_stringify_def)
qed

text \<open>
  The claim as stated fails when the clock moves between the readings for \<open>createdAt\<close>
  and \<open>updatedAt\<close>, and when the collection already holds a case with the new id (the
  same patient, the same clock reading): \<open>getCaseById\<close> then returns the older case,
  with another symptom text.
\<close>

theorem createSymptomCase_counterexample:
  "createdAt (fst (createSymptomCase 5 5 6 ''P'' ''John Doe'' 30 ''9876543210'' ''Hyderabad''
        ''Telangana'' ''headache''
        \<lparr>medicalCases = Some (Serialized [sample_case\<lparr>caseId := ''CASE-P-5'',
           patientId := ''P''\<rparr>]), console = []\<rparr>))
   \<noteq> updatedAt (fst (createSymptomCase 5 5 6 ''P'' ''John Doe'' 30 ''9876543210''
        ''Hyderabad'' ''Telangana'' ''headache''
        \<lparr>medicalCases = Some (Serialized [sample_case\<lparr>caseId := ''CASE-P-5'',
           patientId := ''P''\<rparr>]), console = []\<rparr>))
   \<and> fst (getCaseById
          (caseId (fst (createSymptomCase 5 5 6 ''P'' ''John Doe'' 30 ''9876543210''
            ''Hyderabad'' ''Telangana'' ''headache''
            \<lparr>medicalCases = Some (Serialized [sample_case\<lparr>caseId := ''CASE-P-5'',
               patientId := ''P''\<rparr>]), console = []\<rparr>)))
          (snd (createSymptomCase 5 5 6 ''P'' ''John Doe'' 30 ''9876543210''
            ''Hyderabad'' ''Telangana'' ''headache''
            \<lparr>medicalCases = Some (Serialized [sample_case\<lparr>caseId := ''CASE-P-5'',
               patientId := ''P''\<rparr>]), console = []\<rparr>)))
     = Some (sample_case\<lparr>caseId := ''CASE-P-5'', patientId := ''P''\<rparr>)
   \<and> symptomText (sample_case\<lparr>caseId := ''CASE-P-5'', patientId := ''P''\<rparr>)
       \<noteq> Some ''headache''"
  by (simp add: createSymptomCase_def saveCaseToStorage_def getAllCases_def getCaseById_def
      setItem_def JSON_stringify_def console_log_def make_caseId_def number_toString_5
      sample_case_def Let_def)

subsection \<open>Case ids are determined by patient id and clock reading\<close>

lemma digit_val_digit_char: "d < 10 \<Longrightarrow> digit_val (digit_char d) = d"
  by (simp add: digit_val_def digit_char_def)

lemma read_digits_number_toString: "read_digits (number_toString n) = n"
proof (induction n rule: number_toString.induct)
  case (1 n)
  show ?case
  proof (cases "n < 10")
    case True
    then show ?thesis
      by (subst number_toString.simps) (simp add: read_digits_def digit_val_digit_char)
  next
    case False
    with 1 have ih: "read_digits (number_toString (n div 10)) = n div 10" by simp
    have "read_digits (number_toString n)
          = 10 * read_digits (number_toString (n div 10)) + digit_val (digit_char (n mod 10))"
      using False by (subst number_toString.simps) (simp add: read_digits_def)
    also have "\<dots> = 10 * (n div 10) + n mod 10"
      by (simp add: ih digit_val_digit_char)
    finally show ?thesis by simp
  qed
qed

lemma number_toString_inj: "number_toString m = number_toString n \<Longrightarrow> m = n"
  by (metis read_digits_number_toString)

lemma hyphen_not_digit: "d < 10 \<Longrightarrow> digit_char d \<noteq> CHR ''-''"
proof
  assume d: "d < 10" and "digit_char d = CHR ''-''"
  then have "of_char (digit_char d) = (of_char (CHR ''-'') :: nat)" by simp
  with d show False by (simp add: digit_char_def)
qed

lemma number_toString_no_hyphen: "CHR ''-'' \<notin> set (number_toString n)"
proof (induction n rule: number_toString.induct)
  case (1 n)
  show ?case
  proof (cases "n < 10")
    case True
    then show ?thesis
      using hyphen_not_digit [of n] by (subst number_toString.simps) auto
  next
    case False
    with 1 have "CHR ''-'' \<notin> set (number_toString (n div 10))" by simp
    moreover have "digit_char (n mod 10) \<noteq> CHR ''-''" by (rule hyphen_not_digit) simp
    ultimately show ?thesis using False by (subst number_toString.simps) auto
  qed
qed

lemma takeWhile_until: "c \<notin> set xs \<Longrightarrow> takeWhile (\<lambda>x. x \<noteq> c) (xs @ c # ys) = xs"
  by (induction xs) auto

lemma split_at_last_hyphen:
  assumes "p @ CHR ''-'' # d = p' @ CHR ''-'' # d'"
    and "CHR ''-'' \<notin> set d" and "CHR ''-'' \<notin> set d'"
  shows "p = p' \<and> d = d'"
proof -
  from assms(1) have "rev (p @ CHR ''-'' # d) = rev (p' @ CHR ''-'' # d')" by simp
  then have e: "rev d @ CHR ''-'' # rev p = rev d' @ CHR ''-'' # rev p'" by simp
  have "takeWhile (\<lambda>c. c \<noteq> CHR ''-'') (rev d @ CHR ''-'' # rev p) = rev d"
    using assms(2) by (simp add: takeWhile_until)
  moreover have "takeWhile (\<lambda>c. c \<noteq> CHR ''-'') (rev d' @ CHR ''-'' # rev p') = rev d'"
    using assms(3) by (simp add: takeWhile_until)
  ultimately have "rev d = rev d'" using e by simp
  then have "d = d'" by simp
  with assms(1) show ?thesis by simp
qed

lemma make_caseId_inj:
  assumes "make_caseId p t = make_caseId p' t'"
  shows "p = p' \<and> t = t'"
proof -
  from assms have "p @ CHR ''-'' # number_toString t = p' @ CHR ''-'' # number_toString t'"
    by (simp add: make_caseId_def)
  then have "p = p' \<and> number_toString t = number_toString t'"
    by (rule split_at_last_hyphen) (rule number_toString_no_hyphen)+
  then show ?thesis by (auto dest: number_toString_inj)
qed

subsection \<open>What one operation does to the collection\<close>

declare apply_op.simps [simp del]

lemma stored_Create:
  "stored (apply_op (Create tId tCreated tUpdated pid pname page pphone pdistrict pstate text) w)
   = stored w @ [fst (createSymptomCase tId tCreated tUpdated pid pname page pphone pdistrict pstate text w)]"
  by (simp add: apply_op.simps createSymptomCase_def Let_def stored_console_log
      stored_saveCaseToStorage)

lemma stored_Reply:
  "stored (apply_op (Reply now rid cid did dname spec body kind med) w)
   = update_first (\<lambda>c. caseId c = cid)
       (append_reply \<lparr>replyId = rid, doctorId = did, doctorName = dname,
                       specialization = spec, content = body, type = kind,
                       medication = med, timestamp = now\<rparr> now) (stored w)"
proof (cases "array_find (\<lambda>c. caseId c = cid) (stored w)")
  case None
  then have "update_first (\<lambda>c. caseId c = cid)
       (append_reply \<lparr>replyId = rid, doctorId = did, doctorName = dname,
                       specialization = spec, content = body, type = kind,
                       medication = med, timestamp = now\<rparr> now) (stored w) = stored w"
    by (simp add: update_first_no_match array_find_None)
  moreover from None have "stored (apply_op (Reply now rid cid did dname spec body kind med) w) = stored w"
    using stored_getAllCases [of w]
    by (simp add: apply_op.simps stored_def addDoctorReply_def case_prod_beta)
  ultimately show ?thesis by simp
next
  case (Some c)
  then show ?thesis
    using stored_setItem [unfolded stored_def]
    by (simp add: apply_op.simps stored_def addDoctorReply_def case_prod_beta Let_def)
qed

lemma caseId_created:
  "caseId (fst (createSymptomCase tId tCreated tUpdated pid pname page pphone pdistrict pstate text w))
   = make_caseId pid tId"
  by (simp add: createSymptomCase_def Let_def)

lemma map_caseId_update_first:
  "map caseId (update_first p (append_reply r now) xs) = map caseId xs"
  by (induction xs) (simp_all add: append_reply_caseId)

lemma caseIds_apply_op:
  "map caseId (stored (apply_op x w))
   = map caseId (stored w) @ map (\<lambda>(pid, t). make_caseId pid t) (id_source x)"
  by (cases x) (simp_all add: stored_Create stored_Reply map_caseId_update_first caseId_created)

lemma caseIds_run_ops:
  "map caseId (stored (run_ops ops w))
   = map caseId (stored w) @ map (\<lambda>(pid, t). make_caseId pid t) (id_sources ops)"
  by (induction ops arbitrary: w) (simp_all add: id_sources_def caseIds_apply_op)

lemma stored_empty_world: "stored empty_world = []"
  by (simp add: stored_def getAllCases_def empty_world_def)

lemma inj_make_caseId: "inj_on (\<lambda>(pid, t). make_caseId pid t) A"
  by (rule inj_onI) (auto dest: make_caseId_inj)

subsection \<open>Status and replies\<close>

lemma length_update_first: "length (update_first p f xs) = length xs"
  by (induction xs) simp_all

lemma nth_update_first:
  "i < length xs \<Longrightarrow> update_first p f xs ! i = xs ! i \<or> update_first p f xs ! i = f (xs ! i)"
proof (induction xs arbitrary: i)
  case Nil
  then show ?case by simp
next
  case (Cons x xs)
  show ?case
  proof (cases i)
    case 0
    then show ?thesis by simp
  next
    case (Suc j)
    with Cons.prems have "j < length xs" by simp
    from Cons.IH [OF this] Suc show ?thesis by auto
  qed
qed

lemma set_update_first: "set (update_first p f xs) \<subseteq> set xs \<union> f ` set xs"
  by (induction xs) auto

lemma status_follows_replies_append_reply:
  "status_follows_replies c \<Longrightarrow> status_follows_replies (append_reply r now c)"
  by (auto simp: status_follows_replies_def append_reply_def split: if_splits)

lemma status_follows_replies_created:
  "status_follows_replies
     (fst (createSymptomCase tId tCreated tUpdated pid pname page pphone pdistrict pstate text w))"
  by (simp add: status_follows_replies_def createSymptomCase_def Let_def)

lemma status_follows_replies_apply_op:
  assumes "list_all status_follows_replies (stored w)"
  shows "list_all status_follows_replies (stored (apply_op x w))"
proof (cases x)
  case Create
  with assms show ?thesis
    by (simp add: stored_Create status_follows_replies_created)
next
  case (Reply now rid cid did dname spec body kind med)
  have "\<forall>c \<in> set (stored (apply_op x w)). status_follows_replies c"
  proof
    fix c assume "c \<in> set (stored (apply_op x w))"
    then have "c \<in> set (stored w) \<or> (\<exists>r n d. d \<in> set (stored w) \<and> c = append_reply r n d)"
      using set_update_first unfolding Reply stored_Reply by fastforce
    with assms show "status_follows_replies c"
      by (auto simp: list_all_iff status_follows_replies_append_reply)
  qed
  then show ?thesis by (simp add: list_all_iff)
qed

lemma status_follows_replies_run_ops:
  "list_all status_follows_replies (stored w)
   \<Longrightarrow> list_all status_follows_replies (stored (run_ops ops w))"
  by (induction ops arbitrary: w) (simp_all add: status_follows_replies_apply_op)

lemma length_apply_op: "length (stored w) \<le> length (stored (apply_op x w))"
  by (cases x) (simp_all add: stored_Create stored_Reply length_update_first)

lemma status_step:
  assumes "i < length (stored w)"
  shows "status (stored (apply_op x w) ! i) = status (stored w ! i)
         \<or> (status (stored w ! i) = PENDING \<and> status (stored (apply_op x w) ! i) = REVIEWED
            \<and> length (replies (stored (apply_op x w) ! i)) = Suc (length (replies (stored w ! i))))"
proof (cases x)
  case Create
  with assms show ?thesis by (simp add: stored_Create nth_append)
next
  case (Reply now rid cid did dname spec body kind med)
  define r where "r = \<lparr>replyId = rid, doctorId = did, doctorName = dname,
                       specialization = spec, content = body, type = kind,
                       medication = med, timestamp = now\<rparr>"
  have "stored (apply_op x w) ! i = stored w ! i
        \<or> stored (apply_op x w) ! i = append_reply r now (stored w ! i)"
    unfolding Reply stored_Reply r_def using assms by (rule nth_update_first)
  then show ?thesis
    by (cases "status (stored w ! i)") (auto simp: append_reply_def)
qed

lemma new_cases_pending:
  assumes "length (stored w) \<le> i" and "i < length (stored (apply_op x w))"
  shows "status (stored (apply_op x w) ! i) = PENDING \<and> replies (stored (apply_op x w) ! i) = []"
proof (cases x)
  case Create
  with assms show ?thesis
    by (simp add: stored_Create nth_append createSymptomCase_def Let_def)
next
  case Reply
  with assms show ?thesis by (simp add: stored_Reply length_update_first)
qed

text \<open>
  Claim C6. In every store reached from the empty one by creations and replies, a case
  is \<open>PENDING\<close> exactly when it has no reply and \<open>REVIEWED\<close> otherwise, so that
  it is never \<open>RESOLVED\<close>. One operation on any store keeps every case in its place
  and either keeps its status or takes it from \<open>PENDING\<close> to \<open>REVIEWED\<close> while
  appending one reply: no status goes back to \<open>PENDING\<close> and none becomes
  \<open>RESOLVED\<close>. The cases an operation adds are \<open>PENDING\<close> and have no reply.
\<close>

theorem status_lifecycle:
  "(\<forall>c \<in> set (stored (run_ops ops empty_world)).
       status c = (if replies c = [] then PENDING else REVIEWED))
   \<and> length (stored w) \<le> length (stored (apply_op x w))
   \<and> (\<forall>i < length (stored w).
         status (stored (apply_op x w) ! i) = status (stored w ! i)
         \<or> (status (stored w ! i) = PENDING \<and> status (stored (apply_op x w) ! i) = REVIEWED
            \<and> length (replies (stored (apply_op x w) ! i))
                = Suc (length (replies (stored w ! i)))))
   \<and> (\<forall>i. length (stored w) \<le> i \<and> i < length (stored (apply_op x w)) \<longrightarrow>
         status (stored (apply_op x w) ! i) = PENDING
         \<and> replies (stored (apply_op x w) ! i) = [])"
proof -
  have "list_all status_follows_replies (stored (run_ops ops empty_world))"
    by (rule status_follows_replies_run_ops) (simp add: stored_empty_world)
  then have "\<forall>c \<in> set (stored (run_ops ops empty_world)).
       status c = (if replies c = [] then PENDING else REVIEWED)"
    by (simp add: list_all_iff status_follows_replies_def)
  then show ?thesis
    using length_apply_op [of w x] status_step [of _ w x] new_cases_pending [of w _ x]
    by blast
qed

theorem status_lifecycle_witness:
  "(\<exists>c d. stored (run_ops [Create 1000 1000 1000 ''PAT-1'' ''John Doe'' 30 ''9876543210'' ''Hyderabad''
           ''Telangana'' ''cough and cold'',
         Reply 2000 ''REPLY-1'' ''CASE-PAT-1-1000'' ''DOC-1'' ''Dr. Smith'' ''Pulmonologist''
           ''Sounds like viral infection'' DOCTOR_NOTE (Some ''Aspirin 500mg''),
         Create 1001 1001 1001 ''PAT-1'' ''John Doe'' 30 ''9876543210'' ''Hyderabad''
           ''Telangana'' ''fever''] empty_world) = [c, d]
        \<and> replies c \<noteq> [] \<and> status c = REVIEWED \<and> replies d = [] \<and> status d = PENDING)
   \<and> (0::nat) < length (stored sample_world)
   \<and> status (stored sample_world ! 0) = PENDING
   \<and> status (stored (apply_op (Reply 2000 ''REPLY-1'' ''CASE-PAT-1-1000'' ''DOC-1''
        ''Dr. Smith'' ''Pulmonologist'' ''Sounds like viral infection'' DOCTOR_NOTE
        (Some ''Aspirin 500mg'')) sample_world) ! 0) = REVIEWED"
proof -
  have r: "\<exists>c d. stored (run_ops [Create 1000 1000 1000 ''PAT-1'' ''John Doe'' 30 ''9876543210'' ''Hyderabad''
           ''Telangana'' ''cough and cold'',
         Reply 2000 ''REPLY-1'' ''CASE-PAT-1-1000'' ''DOC-1'' ''Dr. Smith'' ''Pulmonologist''
           ''Sounds like viral infection'' DOCTOR_NOTE (Some ''Aspirin 500mg''),
         Create 1001 1001 1001 ''PAT-1'' ''John Doe'' 30 ''9876543210'' ''Hyderabad''
           ''Telangana'' ''fever''] empty_world) = [c, d] \<and> replies c \<noteq> [] \<and> replies d = []"
    by (simp add: apply_op.simps createSymptomCase_def addDoctorReply_def
        saveCaseToStorage_def getAllCases_def stored_def setItem_def JSON_stringify_def
        console_log_def console_error_def make_caseId_def number_toString_1000
        empty_world_def append_reply_def Let_def)
  have s: "stored sample_world = [sample_case]"
    by (simp add: stored_def getAllCases_def sample_world_def)
  have t: "status (stored (apply_op (Reply 2000 ''REPLY-1'' ''CASE-PAT-1-1000'' ''DOC-1''
        ''Dr. Smith'' ''Pulmonologist'' ''Sounds like viral infection'' DOCTOR_NOTE
        (Some ''Aspirin 500mg'')) sample_world) ! 0) = REVIEWED"
    by (simp add: stored_Reply s) (simp add: sample_case_def append_reply_def)
  from status_lifecycle [of "[Create 1000 1000 1000 ''PAT-1'' ''John Doe'' 30 ''9876543210'' ''Hyderabad''
           ''Telangana'' ''cough and cold'',
         Reply 2000 ''REPLY-1'' ''CASE-PAT-1-1000'' ''DOC-1'' ''Dr. Smith'' ''Pulmonologist''
           ''Sounds like viral infection'' DOCTOR_NOTE (Some ''Aspirin 500mg''),
         Create 1001 1001 1001 ''PAT-1'' ''John Doe'' 30 ''9876543210'' ''Hyderabad''
           ''Telangana'' ''fever'']" sample_world
      "Reply 2000 ''REPLY-1'' ''CASE-PAT-1-1000'' ''DOC-1''
        ''Dr. Smith'' ''Pulmonologist'' ''Sounds like viral infection'' DOCTOR_NOTE
        (Some ''Aspirin 500mg'')"]
  show ?thesis
    using r s t by (auto simp: sample_case_def)
qed

subsection \<open>Uniqueness of case ids\<close>

text \<open>
  Claim C7, as amended. In every store reached from the empty one by creations and
  replies, no two cases have the same id, provided that no two creations had both the
  same patient id and the same clock reading for the id.
\<close>

theorem caseIds_unique_when_sources_distinct:
  assumes "distinct (id_sources ops)"
  shows "distinct (map caseId (stored (run_ops ops empty_world)))"
  using assms by (simp add: caseIds_run_ops stored_empty_world distinct_map inj_make_caseId)

theorem caseIds_unique_when_sources_distinct_witness:
  "distinct (id_sources [Create 1000 1000 1000 ''PAT-1'' ''John Doe'' 30 ''9876543210'' ''Hyderabad''
           ''Telangana'' ''cough and cold'',
         Reply 2000 ''REPLY-1'' ''CASE-PAT-1-1000'' ''DOC-1'' ''Dr. Smith'' ''Pulmonologist''
           ''Sounds like viral infection'' DOCTOR_NOTE (Some ''Aspirin 500mg''),
         Create 1001 1001 1001 ''PAT-1'' ''John Doe'' 30 ''9876543210'' ''Hyderabad''
           ''Telangana'' ''fever''])
   \<and> distinct (map caseId (stored (run_ops [Create 1000 1000 1000 ''PAT-1'' ''John Doe'' 30 ''9876543210'' ''Hyderabad''
           ''Telangana'' ''cough and cold'',
         Reply 2000 ''REPLY-1'' ''CASE-PAT-1-1000'' ''DOC-1'' ''Dr. Smith'' ''Pulmonologist''
           ''Sounds like viral infection'' DOCTOR_NOTE (Some ''Aspirin 500mg''),
         Create 1001 1001 1001 ''PAT-1'' ''John Doe'' 30 ''9876543210'' ''Hyderabad''
           ''Telangana'' ''fever''] empty_world)))"
proof -
  have h: "distinct (id_sources [Create 1000 1000 1000 ''PAT-1'' ''John Doe'' 30 ''9876543210'' ''Hyderabad''
           ''Telangana'' ''cough and cold'',
         Reply 2000 ''REPLY-1'' ''CASE-PAT-1-1000'' ''DOC-1'' ''Dr. Smith'' ''Pulmonologist''
           ''Sounds like viral infection'' DOCTOR_NOTE (Some ''Aspirin 500mg''),
         Create 1001 1001 1001 ''PAT-1'' ''John Doe'' 30 ''9876543210'' ''Hyderabad''
           ''Telangana'' ''fever''])"
    by (simp add: id_sources_def)
  from caseIds_unique_when_sources_distinct [OF h] h show ?thesis by simp
qed

text \<open>
  The claim as stated fails for two submissions of one patient at the same clock
  reading: both cases get the id \<open>CASE-PAT-1-1000\<close>.
\<close>

theorem caseIds_unique_counterexample:
  "\<not> distinct (map caseId (stored (run_ops
        [Create 1000 1000 1000 ''PAT-1'' ''John Doe'' 30 ''9876543210'' ''Hyderabad''
           ''Telangana'' ''cough and cold'',
         Create 1000 1000 1001 ''PAT-1'' ''John Doe'' 30 ''9876543210'' ''Hyderabad''
           ''Telangana'' ''fever'']
        empty_world)))"
  by (simp add: caseIds_apply_op stored_empty_world)

section \<open>Properties of SymptomDisplay\<close>

subsection \<open>One call of loadCases\<close>

lemma truthy_iff: "truthy t \<longleftrightarrow> t \<noteq> None \<and> t \<noteq> Some []"
  by (cases t) simp_all

lemma getCasesByPatient_filter:
  "fst (getCasesByPatient p w) = filter (\<lambda>c. patientId c = p) (stored w)"
  by (simp add: getCasesByPatient_def array_filter_eq stored_def case_prod_beta)


lemma render_loaded:
  "\<not> loading v \<Longrightarrow>
   render v = (if cases v = [] then Empty_state
               else Case_cards (map (\<lambda>c. (caseId c, c)) (rev (cases v))), cases v)"
  by (simp add: render_def Array_slice_def Array_reverse_def Let_def)

lemma loadCases_returns:
  assumes "rd pid w = (Inr pcs, w1)"
  shows "loadCases rd pid (w, v)
         = (w1, v\<lparr>cases := filter (\<lambda>c. truthy (symptomText c)) pcs, loading := False\<rparr>)"
  using assms by (simp add: loadCases_def array_filter_eq)


lemma store_reader_eq:
  "store_reader pid w = (Inr (fst (getCasesByPatient pid w)), snd (getAllCases w))"
  by (simp add: store_reader_def getCasesByPatient_def case_prod_beta)

subsection \<open>A failing read\<close>




subsection \<open>The polling schedule\<close>

lemma call_loadCases_fields:
  "time (call_loadCases rd pid pg) = time pg"
  "timers (call_loadCases rd pid pg) = timers pg"
  "cleanup (call_loadCases rd pid pg) = cleanup pg"
  "next_timer_id (call_loadCases rd pid pg) = next_timer_id pg"
  "trace (call_loadCases rd pid pg) = trace pg @ [(time pg, pid)]"
  by (simp_all add: call_loadCases_def case_prod_beta)

lemma due_iff:
  assumes "0 < p"
  shows "p * Suc (n div p) = Suc n \<longleftrightarrow> Suc n mod p = 0"
proof
  assume "p * Suc (n div p) = Suc n"
  then show "Suc n mod p = 0" by (metis mod_mult_self1_is_0)
next
  assume a: "Suc n mod p = 0"
  then have "Suc n div p = Suc (n div p)" by (simp add: div_Suc)
  moreover from a have "p * (Suc n div p) = Suc n"
    using mult_div_mod_eq [of p "Suc n"] by simp
  ultimately show "p * Suc (n div p) = Suc n" by simp
qed

lemma due_iff_3000: "3000 * Suc (n div 3000) = Suc n \<longleftrightarrow> Suc n mod 3000 = 0"
  by (rule due_iff) simp

lemma mounted_for_mount: "mounted_for t0 pid 0 (mount rd pid (boot t0 w))"
  by (simp add: mounted_for_def mount_def boot_def setInterval_def Let_def
      call_loadCases_def case_prod_beta)

lemma tick_fires:
  assumes "timers pg = [t]" and "due t = Suc (time pg)"
  shows "time (tick rd pg) = Suc (time pg)"
    and "timers (tick rd pg) = [t\<lparr>due := due t + period t\<rparr>]"
    and "cleanup (tick rd pg) = cleanup pg"
    and "trace (tick rd pg) = trace pg @ [(Suc (time pg), closure_patientId t)]"
  using assms by (simp_all add: tick_def Let_def call_loadCases_fields rearm_def)

lemma tick_waits:
  assumes "timers pg = [t]" and "due t \<noteq> Suc (time pg)"
  shows "time (tick rd pg) = Suc (time pg)"
    and "timers (tick rd pg) = [t]"
    and "cleanup (tick rd pg) = cleanup pg"
    and "trace (tick rd pg) = trace pg"
  using assms by (simp_all add: tick_def Let_def rearm_def)

lemma mounted_for_tick:
  assumes "mounted_for t0 pid n pg"
  shows "mounted_for t0 pid (Suc n) (tick rd pg)"
proof -
  define q where "q = n div 3000"
  define t where "t = \<lparr>timer_id = 0, period = 3000, due = t0 + 3000 * Suc q,
                         closure_patientId = pid\<rparr>"
  from assms have tm: "time pg = t0 + n" and ts: "timers pg = [t]"
    and cl: "cleanup pg = Some 0"
    and tr: "trace pg = map (\<lambda>k. (t0 + 3000 * k, pid)) [0..<Suc q]"
    by (simp_all add: mounted_for_def q_def t_def)
  show ?thesis
  proof (cases "Suc n mod 3000 = 0")
    case True
    then have d: "Suc n div 3000 = Suc q" by (simp add: div_Suc q_def)
    have e: "3000 * Suc q = Suc n"
      unfolding q_def using due_iff_3000 [of n] True by blast
    have at: "due t = Suc (time pg)" unfolding t_def tm using e by simp
    have nd: "t\<lparr>due := due t + period t\<rparr>
              = \<lparr>timer_id = 0, period = 3000, due = t0 + 3000 * Suc (Suc q),
                 closure_patientId = pid\<rparr>"
      by (simp add: t_def)
    have nt: "trace pg @ [(Suc (time pg), closure_patientId t)]
              = map (\<lambda>k. (t0 + 3000 * k, pid)) [0..<Suc (Suc q)]"
    proof -
      have "(Suc (time pg), closure_patientId t) = (t0 + 3000 * Suc q, pid)"
        using at by (simp add: t_def)
      then show ?thesis unfolding tr by (simp del: mult_Suc_right)
    qed
    note f = tick_fires [OF ts at, of rd]
    have 1: "time (tick rd pg) = t0 + Suc n" using f(1) tm by simp
    have 2: "timers (tick rd pg)
             = [\<lparr>timer_id = 0, period = 3000, due = t0 + 3000 * Suc (Suc q),
                 closure_patientId = pid\<rparr>]"
      by (simp only: f(2) nd)
    have 3: "cleanup (tick rd pg) = Some 0" by (simp only: f(3) cl)
    have 4: "trace (tick rd pg) = map (\<lambda>k. (t0 + 3000 * k, pid)) [0..<Suc (Suc q)]"
      by (simp only: f(4) nt)
    show ?thesis
      unfolding mounted_for_def d by (intro conjI 1 2 3 4)
  next
    case False
    then have d: "Suc n div 3000 = q" by (simp add: div_Suc q_def)
    have "3000 * Suc q \<noteq> Suc n"
      unfolding q_def using due_iff_3000 [of n] False by blast
    then have at: "due t \<noteq> Suc (time pg)" unfolding t_def tm by simp
    note f = tick_waits [OF ts at, of rd]
    have 1: "time (tick rd pg) = t0 + Suc n" using f(1) tm by simp
    have 2: "timers (tick rd pg)
             = [\<lparr>timer_id = 0, period = 3000, due = t0 + 3000 * Suc q,
                 closure_patientId = pid\<rparr>]"
      by (simp only: f(2) t_def)
    have 3: "cleanup (tick rd pg) = Some 0" by (simp only: f(3) cl)
    have 4: "trace (tick rd pg) = map (\<lambda>k. (t0 + 3000 * k, pid)) [0..<Suc q]"
      by (simp only: f(4) tr)
    show ?thesis
      unfolding mounted_for_def d by (intro conjI 1 2 3 4)
  qed
qed

lemma mounted_for_advance: "mounted_for t0 pid n (advance rd n (mount rd pid (boot t0 w)))"
  by (induction n) (simp_all add: mounted_for_mount mounted_for_tick)

lemma tick_no_timers:
  "timers pg = [] \<Longrightarrow> timers (tick rd pg) = [] \<and> trace (tick rd pg) = trace pg"
  by (simp add: tick_def Let_def)

lemma advance_no_timers:
  "timers pg = [] \<Longrightarrow> timers (advance rd m pg) = [] \<and> trace (advance rd m pg) = trace pg"
  by (induction m) (simp_all add: tick_no_timers)

lemma unmount_mounted_for:
  "mounted_for t0 pid n pg \<Longrightarrow> timers (unmount pg) = [] \<and> trace (unmount pg) = trace pg"
  by (simp add: mounted_for_def unmount_def clearInterval_def)

lemma call_loadCases_reads:
  "(env (call_loadCases rd pid pg), ui (call_loadCases rd pid pg))
   = loadCases rd pid (env pg, ui pg)"
  by (simp add: call_loadCases_def case_prod_beta)

lemma tick_fires_reads:
  assumes "timers pg = [t]" and "due t = Suc (time pg)"
  shows "(env (tick rd pg), ui (tick rd pg))
         = loadCases rd (closure_patientId t) (env pg, ui pg)"
proof -
  have "tick rd pg
        = (call_loadCases rd (closure_patientId t) (pg\<lparr>time := Suc (time pg)\<rparr>))
            \<lparr>timers := map (rearm (Suc (time pg))) [t]\<rparr>"
    using assms by (simp add: tick_def Let_def call_loadCases_fields)
  then show ?thesis
    using call_loadCases_reads [of rd "closure_patientId t" "pg\<lparr>time := Suc (time pg)\<rparr>"]
    by simp
qed

lemma tick_waits_reads:
  assumes "timers pg = [t]" and "due t \<noteq> Suc (time pg)"
  shows "env (tick rd pg) = env pg" and "ui (tick rd pg) = ui pg"
  using assms by (simp_all add: tick_def Let_def)

lemma due_now_iff: "(t0 + a = Suc (t0 + n)) = (a = Suc n)"
  by auto

lemma mounted_for_due:
  assumes "mounted_for t0 pid n pg"
  shows "timers pg = [hd (timers pg)]"
    and "closure_patientId (hd (timers pg)) = pid"
    and "due (hd (timers pg)) = Suc (time pg) \<longleftrightarrow> Suc n mod 3000 = 0"
proof -
  define a where "a = 3000 * Suc (n div 3000)"
  define t where "t = \<lparr>timer_id = 0, period = 3000, due = t0 + a, closure_patientId = pid\<rparr>"
  from assms have tm: "time pg = t0 + n" and ts: "timers pg = [t]"
    by (simp_all add: mounted_for_def a_def t_def)
  have d: "due t = t0 + a" and c: "closure_patientId t = pid" by (simp_all add: t_def)
  have "a = Suc n \<longleftrightarrow> Suc n mod 3000 = 0"
    unfolding a_def by (rule due_iff_3000)
  then have e: "due t = Suc (time pg) \<longleftrightarrow> Suc n mod 3000 = 0"
    by (simp only: d tm due_now_iff)
  show "timers pg = [hd (timers pg)]" by (simp add: ts)
  show "closure_patientId (hd (timers pg)) = pid" by (simp only: ts list.sel c)
  show "due (hd (timers pg)) = Suc (time pg) \<longleftrightarrow> Suc n mod 3000 = 0"
    by (simp only: ts list.sel e)
qed

lemma env_ui_mount:
  "(env (mount rd pid (boot t0 w)), ui (mount rd pid (boot t0 w)))
   = loadCases rd pid (w, initial_view)"
  by (simp add: mount_def boot_def setInterval_def Let_def call_loadCases_def case_prod_beta)

lemma env_ui_advance:
  "(env (advance rd n (mount rd pid (boot t0 w))), ui (advance rd n (mount rd pid (boot t0 w))))
   = (loadCases rd pid ^^ Suc (n div 3000)) (w, initial_view)"
proof (induction n)
  case 0
  show ?case using env_ui_mount [of rd pid t0 w] by simp
next
  case (Suc n)
  let ?pg = "advance rd n (mount rd pid (boot t0 w))"
  define t where "t = hd (timers ?pg)"
  note m = mounted_for_due [OF mounted_for_advance [of t0 pid n rd w], folded t_def]
  note ts = m(1) and cp = m(2) and du = m(3)
  show ?case
  proof (cases "Suc n mod 3000 = 0")
    case True
    then have d: "Suc n div 3000 = Suc (n div 3000)" by (simp add: div_Suc)
    from True du have at: "due t = Suc (time ?pg)" by simp
    have "(env (tick rd ?pg), ui (tick rd ?pg)) = loadCases rd pid (env ?pg, ui ?pg)"
      using tick_fires_reads [OF ts at, of rd] cp by simp
    then show ?thesis
      unfolding d advance.simps using Suc.IH by (simp only: funpow.simps o_apply)
  next
    case False
    then have d: "Suc n div 3000 = n div 3000" by (simp add: div_Suc)
    from False du have at: "due t \<noteq> Suc (time ?pg)" by simp
    show ?thesis
      unfolding d advance.simps using Suc.IH tick_waits_reads [OF ts at, of rd] by simp
  qed
qed

lemma stored_cong: "medicalCases w = medicalCases w' \<Longrightarrow> stored w = stored w'"
  by (simp add: stored_def getAllCases_def split: option.splits sum.splits)

lemma loadCases_store:
  "loadCases store_reader pid (w, v)
   = (snd (getAllCases w),
      v\<lparr>cases := filter (\<lambda>c. truthy (symptomText c)) (fst (getCasesByPatient pid w)),
        loading := False\<rparr>)"
  by (rule loadCases_returns) (rule store_reader_eq)

lemma polls_keep_slot:
  "medicalCases (fst ((loadCases store_reader pid ^^ k) (w, v))) = medicalCases w"
proof (induction k)
  case 0
  show ?case by simp
next
  case (Suc k)
  obtain w1 v1 where p: "(loadCases store_reader pid ^^ k) (w, v) = (w1, v1)"
    by (cases "(loadCases store_reader pid ^^ k) (w, v)")
  with Suc show ?case by (simp add: loadCases_store getAllCases_slot)
qed

lemma polls_show_store:
  "cases (snd ((loadCases store_reader pid ^^ Suc k) (w, v)))
     = filter (\<lambda>c. truthy (symptomText c)) (fst (getCasesByPatient pid w))
   \<and> loading (snd ((loadCases store_reader pid ^^ Suc k) (w, v))) = False"
proof -
  obtain w1 v1 where p: "(loadCases store_reader pid ^^ k) (w, v) = (w1, v1)"
    by (cases "(loadCases store_reader pid ^^ k) (w, v)")
  have "medicalCases w1 = medicalCases w" using polls_keep_slot [where pid = pid and k = k and w = w and v = v] p by simp
  then have "stored w1 = stored w" by (rule stored_cong)
  then have "fst (getCasesByPatient pid w1) = fst (getCasesByPatient pid w)"
    by (simp add: getCasesByPatient_filter)
  then show ?thesis by (simp add: p loadCases_store)
qed

lemma tick_no_timers_state:
  "timers pg = [] \<Longrightarrow> env (tick rd pg) = env pg \<and> ui (tick rd pg) = ui pg"
  by (simp add: tick_def Let_def)

lemma advance_no_timers_state:
  "timers pg = [] \<Longrightarrow> env (advance rd m pg) = env pg \<and> ui (advance rd m pg) = ui pg"
proof (induction m)
  case 0
  show ?case by simp
next
  case (Suc m)
  then have "timers (advance rd m pg) = []" using advance_no_timers by blast
  from tick_no_timers_state [OF this, of rd] Suc show ?case by simp
qed

lemma unmount_state: "env (unmount pg) = env pg \<and> ui (unmount pg) = ui pg"
  by (simp add: unmount_def clearInterval_def split: option.splits)

text \<open>
  Claim C9. Mounting the component on a page without timers at time \<open>t0\<close> runs
  \<open>loadCases\<close> once, at \<open>t0\<close>, on the store as it is then and the initial state of
  the component. After \<open>n\<close> further time units \<open>loadCases\<close> has run at \<open>t0\<close>,
  \<open>t0 + 3000\<close>, \<open>t0 + 6000\<close>, ... up to \<open>t0 + n\<close>, each time for the patient id
  of the component: the environment and the state of the component are those after that
  many runs, and with the store's read the component holds the patient's cases with a
  symptom text, read from the store by \<open>getCasesByPatient\<close>, and no longer loads.
  Whatever the environment holds when the timer is due, that firing runs \<open>loadCases\<close>
  on it, and a time unit at which the timer is not due changes nothing. Unmounting
  removes the timer, and however much time passes afterwards, \<open>loadCases\<close> does not
  run again: trace, environment and state of the component stay as they were.
\<close>

theorem poll_schedule:
  "trace (mount rd pid (boot t0 w)) = [(t0, pid)]
   \<and> (env (mount rd pid (boot t0 w)), ui (mount rd pid (boot t0 w)))
       = loadCases rd pid (w, initial_view)
   \<and> trace (advance rd n (mount rd pid (boot t0 w)))
       = map (\<lambda>k. (t0 + 3000 * k, pid)) [0..<Suc (n div 3000)]
   \<and> (env (advance rd n (mount rd pid (boot t0 w))),
       ui (advance rd n (mount rd pid (boot t0 w))))
       = (loadCases rd pid ^^ Suc (n div 3000)) (w, initial_view)
   \<and> cases (ui (advance store_reader n (mount store_reader pid (boot t0 w))))
       = filter (\<lambda>c. truthy (symptomText c)) (fst (getCasesByPatient pid w))
   \<and> loading (ui (advance store_reader n (mount store_reader pid (boot t0 w)))) = False
   \<and> (timers pg = [t] \<and> due t = Suc (time pg) \<longrightarrow>
        (env (tick rd pg), ui (tick rd pg))
          = loadCases rd (closure_patientId t) (env pg, ui pg)
        \<and> trace (tick rd pg) = trace pg @ [(Suc (time pg), closure_patientId t)])
   \<and> (timers pg = [t] \<and> due t \<noteq> Suc (time pg) \<longrightarrow>
        env (tick rd pg) = env pg \<and> ui (tick rd pg) = ui pg \<and> trace (tick rd pg) = trace pg)
   \<and> timers (unmount (advance rd n (mount rd pid (boot t0 w)))) = []
   \<and> trace (advance rd m (unmount (advance rd n (mount rd pid (boot t0 w)))))
       = trace (advance rd n (mount rd pid (boot t0 w)))
   \<and> env (advance rd m (unmount (advance rd n (mount rd pid (boot t0 w)))))
       = env (advance rd n (mount rd pid (boot t0 w)))
   \<and> ui (advance rd m (unmount (advance rd n (mount rd pid (boot t0 w)))))
       = ui (advance rd n (mount rd pid (boot t0 w)))"
proof -
  let ?pg = "advance rd n (mount rd pid (boot t0 w))"
  let ?sg = "advance store_reader n (mount store_reader pid (boot t0 w))"
  have a: "mounted_for t0 pid n ?pg" by (rule mounted_for_advance)
  have b: "mounted_for t0 pid 0 (mount rd pid (boot t0 w))" by (rule mounted_for_mount)
  from b have 1: "trace (mount rd pid (boot t0 w)) = [(t0, pid)]"
    by (simp add: mounted_for_def)
  note 2 = env_ui_mount [of rd pid t0 w]
  from a have 3: "trace ?pg = map (\<lambda>k. (t0 + 3000 * k, pid)) [0..<Suc (n div 3000)]"
    by (simp add: mounted_for_def)
  note 4 = env_ui_advance [of rd n pid t0 w]
  have "ui ?sg = snd ((loadCases store_reader pid ^^ Suc (n div 3000)) (w, initial_view))"
    using arg_cong [OF env_ui_advance [of store_reader n pid t0 w], of snd] by simp
  then have 5: "cases (ui ?sg)
       = filter (\<lambda>c. truthy (symptomText c)) (fst (getCasesByPatient pid w))"
    and 12: "loading (ui ?sg) = False"
    using polls_show_store [where pid = pid and k = "n div 3000" and w = w and v = initial_view] by simp_all
  have 6: "timers pg = [t] \<and> due t = Suc (time pg) \<longrightarrow>
        (env (tick rd pg), ui (tick rd pg))
          = loadCases rd (closure_patientId t) (env pg, ui pg)
        \<and> trace (tick rd pg) = trace pg @ [(Suc (time pg), closure_patientId t)]"
    using tick_fires_reads [of pg t rd] tick_fires(4) [of pg t rd] by simp
  have 7: "timers pg = [t] \<and> due t \<noteq> Suc (time pg) \<longrightarrow>
        env (tick rd pg) = env pg \<and> ui (tick rd pg) = ui pg \<and> trace (tick rd pg) = trace pg"
    using tick_waits_reads [of pg t rd] tick_waits(4) [of pg t rd] by simp
  note u = unmount_mounted_for [OF a]
  from u have 8: "timers (unmount ?pg) = []" by simp
  have 9: "trace (advance rd m (unmount ?pg)) = trace ?pg"
    using advance_no_timers [OF 8, of rd m] u by simp
  have 10: "env (advance rd m (unmount ?pg)) = env ?pg"
    and 11: "ui (advance rd m (unmount ?pg)) = ui ?pg"
    using advance_no_timers_state [OF 8, of rd m] unmount_state [of ?pg] by simp_all
  show ?thesis by (intro conjI 1 2 3 4 5 12 6 7 8 9 10 11)
qed

text \<open>
  A store in which the case of \<open>PAT-1\<close> was written by another context after the
  component was mounted on the empty store: the poll at time 3000 shows it.
\<close>

theorem poll_schedule_witness:
  "timers page_before_poll = [poll_timer]
   \<and> due poll_timer = Suc (time page_before_poll)
   \<and> cases (ui page_before_poll) = []
   \<and> cases (ui (tick store_reader page_before_poll)) = [sample_case]
   \<and> trace (tick store_reader page_before_poll) = [(0, ''PAT-1''), (3000, ''PAT-1'')]
   \<and> timers (page_before_poll\<lparr>time := 0\<rparr>) = [poll_timer]
   \<and> due poll_timer \<noteq> Suc (time (page_before_poll\<lparr>time := 0\<rparr>))
   \<and> cases (ui (tick store_reader (page_before_poll\<lparr>time := 0\<rparr>))) = []
   \<and> trace (tick store_reader (page_before_poll\<lparr>time := 0\<rparr>)) = [(0, ''PAT-1'')]"
proof -
  have h1: "timers page_before_poll = [poll_timer]
            \<and> due poll_timer = Suc (time page_before_poll)"
    by (simp add: page_before_poll_def poll_timer_def)
  have h2: "timers (page_before_poll\<lparr>time := 0\<rparr>) = [poll_timer]
            \<and> due poll_timer \<noteq> Suc (time (page_before_poll\<lparr>time := 0\<rparr>))"
    by (simp add: page_before_poll_def poll_timer_def)
  note p1 = poll_schedule [where rd = store_reader and pg = page_before_poll
      and t = poll_timer and pid = "''PAT-1''" and w = empty_world and n = 0 and m = 0
      and ?t0.0 = 0]
  note p2 = poll_schedule [where rd = store_reader and pg = "page_before_poll\<lparr>time := 0\<rparr>"
      and t = poll_timer and pid = "''PAT-1''" and w = empty_world and n = 0 and m = 0
      and ?t0.0 = 0]
  note f = p1 [THEN conjunct2, THEN conjunct2, THEN conjunct2, THEN conjunct2,
      THEN conjunct2, THEN conjunct2, THEN conjunct1, THEN mp, OF h1]
  note g = p2 [THEN conjunct2, THEN conjunct2, THEN conjunct2, THEN conjunct2,
      THEN conjunct2, THEN conjunct2, THEN conjunct2, THEN conjunct1, THEN mp, OF h2]
  have e: "loadCases store_reader ''PAT-1'' (env page_before_poll, ui page_before_poll)
           = (sample_world, \<lparr>cases = [sample_case], loading = False\<rparr>)"
    by (simp add: loadCases_store getCasesByPatient_filter stored_def getAllCases_def
        page_before_poll_def sample_world_def sample_case_def)
  have u: "ui (tick store_reader page_before_poll) = \<lparr>cases = [sample_case], loading = False\<rparr>"
    using arg_cong [OF f [THEN conjunct1], of snd] by (simp add: e poll_timer_def)
  have t: "trace (tick store_reader page_before_poll) = [(0, ''PAT-1''), (3000, ''PAT-1'')]"
    using f [THEN conjunct2] by (simp add: page_before_poll_def poll_timer_def)
  show ?thesis
    using h1 h2 u t g by (simp add: page_before_poll_def)
qed

section \<open>What the document shows\<close>

subsection \<open>Reconciliation with distinct keys leaves no stale node\<close>

lemma first_loop_suffix: "first_loop os ns = (os', ns') \<Longrightarrow> suffix os' os"
proof (induction os ns rule: first_loop.induct)
  case (1 old olds new news)
  then show ?case by (auto split: if_splits intro: suffix_ConsI)
qed simp_all

lemma enumerate_index_ge: "f \<in> set (enumerate n es) \<Longrightarrow> n \<le> fst f"
  by (cases f) (simp add: in_set_enumerate_eq)

lemma enumerate_key_in:
  "f \<in> set (enumerate n es) \<Longrightarrow> fiber_key f = By_key k \<Longrightarrow> k \<in> set (keys_of es)"
proof (induction es arbitrary: n)
  case Nil
  then show ?case by simp
next
  case (Cons e es)
  then show ?case
    by (auto simp: keys_of_def fiber_key_def split: option.splits)
qed

lemma keys_of_Cons:
  "keys_of (e # es) = (case fst e of None \<Rightarrow> [] | Some k \<Rightarrow> [k]) @ keys_of es"
  by (simp add: keys_of_def)

lemma fiber_keys_distinct:
  "distinct (keys_of es) \<Longrightarrow> distinct (map fiber_key (enumerate n es))"
proof (induction es arbitrary: n)
  case Nil
  then show ?case by simp
next
  case (Cons e es)
  from Cons.prems have d: "distinct (keys_of es)"
    by (simp add: keys_of_Cons split: option.splits)
  have "fiber_key (n, e) \<notin> fiber_key ` set (enumerate (Suc n) es)"
  proof
    assume "fiber_key (n, e) \<in> fiber_key ` set (enumerate (Suc n) es)"
    then obtain f where f: "f \<in> set (enumerate (Suc n) es)"
      and k: "fiber_key f = fiber_key (n, e)" by auto
    show False
    proof (cases "fst e")
      case None
      then have "fiber_key f = By_index n" using k by (simp add: fiber_key_def)
      then have "fst f = n" by (auto simp: fiber_key_def split: option.splits)
      with enumerate_index_ge [OF f] show False by simp
    next
      case (Some x)
      then have "fiber_key f = By_key x" using k by (simp add: fiber_key_def)
      from enumerate_key_in [OF f this] have "x \<in> set (keys_of es)" .
      with Cons.prems Some show False by (simp add: keys_of_Cons)
    qed
  qed
  with Cons.IH [OF d, of "Suc n"] show ?case by simp
qed

lemma mapRemainingChildren_other:
  "k \<notin> fiber_key ` set fs \<Longrightarrow> mapRemainingChildren fs m k = m k"
  by (induction fs arbitrary: m) auto

lemma mapRemainingChildren_holds:
  "distinct (map fiber_key fs) \<Longrightarrow> f \<in> set fs
   \<Longrightarrow> mapRemainingChildren fs m (fiber_key f) = Some f"
proof (induction fs arbitrary: m)
  case Nil
  then show ?case by simp
next
  case (Cons g fs)
  show ?case
  proof (cases "f = g")
    case True
    with Cons.prems have "fiber_key f \<notin> fiber_key ` set fs" by simp
    then show ?thesis using True by (simp add: mapRemainingChildren_other)
  next
    case False
    with Cons show ?thesis by simp
  qed
qed

lemma second_loop_keeps:
  assumes "second_loop ns m tk = (tk', m')"
    and "\<forall>f \<in> S. f \<in> set tk \<or> m (fiber_key f) = Some f"
  shows "\<forall>f \<in> S. f \<in> set tk' \<or> m' (fiber_key f) = Some f"
  using assms
proof (induction ns arbitrary: m tk)
  case Nil
  then show ?case by simp
next
  case (Cons n ns)
  show ?case
  proof (cases "m (fiber_key n)")
    case None
    with Cons.prems(1) have "second_loop ns m tk = (tk', m')" by simp
    from Cons.IH [OF this Cons.prems(2)] show ?thesis .
  next
    case (Some g)
    with Cons.prems(1)
    have s: "second_loop ns (m(fiber_key n := None)) (g # tk) = (tk', m')" by simp
    have "\<forall>f \<in> S. f \<in> set (g # tk) \<or> (m(fiber_key n := None)) (fiber_key f) = Some f"
    proof
      fix f assume "f \<in> S"
      with Cons.prems(2) have "f \<in> set tk \<or> m (fiber_key f) = Some f" by blast
      then show "f \<in> set (g # tk) \<or> (m(fiber_key n := None)) (fiber_key f) = Some f"
        using Some by (cases "fiber_key f = fiber_key n") auto
    qed
    from Cons.IH [OF s this] show ?thesis .
  qed
qed

lemma reconcile_no_orphans:
  assumes "distinct (keys_of olds)"
  shows "reconcileChildrenArray olds news = []"
proof -
  obtain old_rest new_rest
    where fl: "first_loop (enumerate 0 olds) (enumerate 0 news) = (old_rest, new_rest)"
    by (cases "first_loop (enumerate 0 olds) (enumerate 0 news)")
  obtain taken remaining
    where sl: "second_loop new_rest (mapRemainingChildren old_rest Map.empty) []
               = (taken, remaining)"
    by (cases "second_loop new_rest (mapRemainingChildren old_rest Map.empty) []")
  from first_loop_suffix [OF fl] obtain pre where "enumerate 0 olds = pre @ old_rest"
    by (auto simp: suffix_def)
  with fiber_keys_distinct [OF assms, of 0] have "distinct (map fiber_key old_rest)" by simp
  then have "\<forall>f \<in> set old_rest.
      f \<in> set [] \<or> mapRemainingChildren old_rest Map.empty (fiber_key f) = Some f"
    by (simp add: mapRemainingChildren_holds)
  from second_loop_keeps [OF sl this]
  have "filter (\<lambda>f. f \<notin> set taken \<and> remaining (fiber_key f) \<noteq> Some f) old_rest = []"
    by (auto simp: filter_empty_conv)
  then show ?thesis
    by (simp add: reconcileChildrenArray_def fl sl Let_def)
qed

lemma keys_of_cards:
  "keys_of (elements (Case_cards (map (\<lambda>c. (caseId c, c)) cs))) = map caseId cs"
  by (induction cs) (simp_all add: keys_of_def)

lemma cards_of_elements:
  "concat (map (\<lambda>e. card_of (snd e)) (elements (Case_cards (map (\<lambda>c. (caseId c, c)) cs)))) = cs"
  by (induction cs) simp_all

lemma commit_clean:
  "distinct (keys_of (children d)) \<Longrightarrow> orphans d = []
   \<Longrightarrow> commit d s = \<lparr>children = elements s, orphans = []\<rparr>"
  by (simp add: commit_def reconcile_no_orphans)

lemma cards_of_render:
  assumes "\<not> loading v"
  shows "concat (map (\<lambda>e. card_of (snd e)) (elements (fst (render v)))) = rev (cases v)"
proof (cases "cases v = []")
  case True
  with assms show ?thesis by (simp add: render_loaded)
next
  case False
  with assms have "fst (render v) = Case_cards (map (\<lambda>c. (caseId c, c)) (rev (cases v)))"
    by (simp add: render_loaded)
  then show ?thesis by (simp only: cards_of_elements)
qed

lemma keys_of_render:
  assumes "\<not> loading v"
  shows "keys_of (elements (fst (render v))) = map caseId (rev (cases v))"
proof (cases "cases v = []")
  case True
  with assms show ?thesis by (simp add: render_loaded keys_of_def)
next
  case False
  with assms have "fst (render v) = Case_cards (map (\<lambda>c. (caseId c, c)) (rev (cases v)))"
    by (simp add: render_loaded)
  then show ?thesis by (simp only: keys_of_cards)
qed

lemma commit_shows:
  assumes "distinct (keys_of (children d))" and "orphans d = []" and "\<not> loading v"
  shows "cards_in_order (commit d (fst (render v))) = rev (cases v)"
    and "stale_cards (commit d (fst (render v))) = []"
    and "keys_of (children (commit d (fst (render v)))) = map caseId (rev (cases v))"
  using cards_of_render [OF assms(3)] keys_of_render [OF assms(3)]
  by (simp_all add: commit_clean [OF assms(1,2)] cards_in_order_def stale_cards_def)

subsection \<open>A store with two cases of one id\<close>

lemma number_toString_1001: "number_toString 1001 = ''1001''"
  by code_simp

lemma stored_twin_world:
  "stored twin_world
   = [sample_case, sample_case\<lparr>symptomText := Some ''fever''\<rparr>]"
  by (simp add: twin_world_def stored_Create stored_empty_world createSymptomCase_def Let_def
      make_caseId_def number_toString_1000 sample_case_def)

lemma stored_later_world:
  "stored later_world
   = [sample_case, sample_case\<lparr>symptomText := Some ''fever''\<rparr>,
      sample_case\<lparr>caseId := ''CASE-PAT-1-1001'', symptomText := Some ''headache'',
        createdAt := 1001, updatedAt := 1001\<rparr>]"
  by (simp add: later_world_def stored_Create stored_twin_world createSymptomCase_def Let_def
      make_caseId_def number_toString_1001 sample_case_def)

lemma cases_twin_view:
  "twin_view = \<lparr>cases = [sample_case, sample_case\<lparr>symptomText := Some ''fever''\<rparr>],
                loading = False\<rparr>"
  by (simp add: twin_view_def loadCases_store getCasesByPatient_filter stored_twin_world
      initial_view_def) (simp add: sample_case_def)

lemma cases_later_view:
  "later_view = \<lparr>cases = [sample_case, sample_case\<lparr>symptomText := Some ''fever''\<rparr>,
      sample_case\<lparr>caseId := ''CASE-PAT-1-1001'', symptomText := Some ''headache'',
        createdAt := 1001, updatedAt := 1001\<rparr>], loading = False\<rparr>"
  by (simp add: later_view_def loadCases_store getCasesByPatient_filter stored_later_world
      cases_twin_view) (simp add: sample_case_def)

lemma twin_document_eq:
  "twin_document
   = \<lparr>children = [(Some ''CASE-PAT-1-1000'', Card (sample_case\<lparr>symptomText := Some ''fever''\<rparr>)),
                  (Some ''CASE-PAT-1-1000'', Card sample_case)],
      orphans = []\<rparr>"
  by (simp add: twin_document_def cases_twin_view render_loaded commit_def empty_root_def
      reconcileChildrenArray_def enumerate_eq_zip fiber_key_def Let_def)
     (simp add: sample_case_def)

subsection \<open>What is rendered\<close>

text \<open>
  Claim C10, as amended. After \<open>loadCases\<close> with the store's read, \<open>cases\<close> is
  \<open>getCasesByPatient\<close> restricted to the cases whose symptom text is present and not
  empty, and the component returns one card for each of them, in reverse order and keyed
  by case id (or the empty-state card when there are none); rendering leaves the state
  array as it was, and the call leaves the storage slot as it was. When the children in
  the document before the commit have pairwise different keys and no stale node is in
  the document, the cards in the document after the commit are exactly these cases in
  reverse order, no stale card is left, and the keys in the document are the case ids of
  the cases shown.
\<close>

theorem rendered_cases:
  assumes "distinct (keys_of (children d))" and "orphans d = []"
  shows "cases (snd (loadCases store_reader pid (w, v)))
           = filter (\<lambda>c. truthy (symptomText c)) (fst (getCasesByPatient pid w))
         \<and> (\<forall>c \<in> set (cases (snd (loadCases store_reader pid (w, v)))).
               patientId c = pid \<and> symptomText c \<noteq> None \<and> symptomText c \<noteq> Some [])
         \<and> fst (render (snd (loadCases store_reader pid (w, v))))
             = (if cases (snd (loadCases store_reader pid (w, v))) = [] then Empty_state
                else Case_cards (map (\<lambda>c. (caseId c, c)) (rev (cases (snd (loadCases store_reader pid (w, v)))))))
         \<and> cards_in_order (commit d (fst (render (snd (loadCases store_reader pid (w, v)))))) = rev (cases (snd (loadCases store_reader pid (w, v))))
         \<and> stale_cards (commit d (fst (render (snd (loadCases store_reader pid (w, v)))))) = []
         \<and> keys_of (children (commit d (fst (render (snd (loadCases store_reader pid (w, v))))))) = map caseId (rev (cases (snd (loadCases store_reader pid (w, v)))))
         \<and> snd (render (snd (loadCases store_reader pid (w, v)))) = cases (snd (loadCases store_reader pid (w, v)))
         \<and> medicalCases (fst (loadCases store_reader pid (w, v))) = medicalCases w"
proof -
  define v' where "v' = snd (loadCases store_reader pid (w, v))"
  have l: "loadCases store_reader pid (w, v)
           = (snd (getAllCases w),
              v\<lparr>cases := filter (\<lambda>c. truthy (symptomText c)) (fst (getCasesByPatient pid w)),
                loading := False\<rparr>)"
    by (rule loadCases_store)
  have nl: "\<not> loading v'" by (simp add: v'_def l)
  have 1: "cases v' = filter (\<lambda>c. truthy (symptomText c)) (fst (getCasesByPatient pid w))"
    by (simp add: v'_def l)
  have 2: "\<forall>c \<in> set (cases v').
             patientId c = pid \<and> symptomText c \<noteq> None \<and> symptomText c \<noteq> Some []"
    unfolding 1 by (simp add: getCasesByPatient_filter truthy_iff)
  have 3: "fst (render v') = (if cases v' = [] then Empty_state
                else Case_cards (map (\<lambda>c. (caseId c, c)) (rev (cases v'))))"
    using nl by (simp add: render_loaded)
  note s = commit_shows [OF assms nl]
  have 7: "snd (render v') = cases v'" using nl by (simp add: render_loaded)
  have 8: "medicalCases (fst (loadCases store_reader pid (w, v))) = medicalCases w"
    by (simp add: l getAllCases_slot)
  show ?thesis
    unfolding v'_def [symmetric] by (intro conjI 1 2 3 s 7 8)
qed

theorem rendered_cases_witness:
  "distinct (keys_of (children (commit empty_root Loading_card)))
   \<and> orphans (commit empty_root Loading_card) = []
   \<and> sample_case \<in> set (cases (snd (loadCases store_reader ''PAT-1'' (busy_world, initial_view))))
   \<and> cards_in_order (commit (commit empty_root Loading_card)
         (fst (render (snd (loadCases store_reader ''PAT-1'' (busy_world, initial_view))))))
       = [sample_case\<lparr>caseId := ''CASE-PAT-1-1004'', symptomText := Some ''fever''\<rparr>,
          sample_case]
   \<and> stale_cards (commit (commit empty_root Loading_card)
         (fst (render (snd (loadCases store_reader ''PAT-1'' (busy_world, initial_view))))))
       = []
   \<and> snd (render (snd (loadCases store_reader ''PAT-1'' (busy_world, initial_view))))
       = [sample_case,
          sample_case\<lparr>caseId := ''CASE-PAT-1-1004'', symptomText := Some ''fever''\<rparr>]"
proof -
  have h1: "distinct (keys_of (children (commit empty_root Loading_card)))"
    by (simp add: commit_def keys_of_def)
  have h2: "orphans (commit empty_root Loading_card) = []"
    by (simp add: commit_def empty_root_def reconcileChildrenArray_def)
  have c: "cases (snd (loadCases store_reader ''PAT-1'' (busy_world, initial_view)))
           = [sample_case,
              sample_case\<lparr>caseId := ''CASE-PAT-1-1004'', symptomText := Some ''fever''\<rparr>]"
    by (simp add: loadCases_def store_reader_def getCasesByPatient_def getAllCases_def
        busy_world_def sample_case_def)
  note t = rendered_cases [OF h1 h2, where pid = "''PAT-1''" and w = busy_world
      and v = initial_view]
  note r4 = t [THEN conjunct2, THEN conjunct2, THEN conjunct2, THEN conjunct1]
  note r5 = t [THEN conjunct2, THEN conjunct2, THEN conjunct2, THEN conjunct2, THEN conjunct1]
  note r7 = t [THEN conjunct2, THEN conjunct2, THEN conjunct2, THEN conjunct2,
      THEN conjunct2, THEN conjunct2, THEN conjunct1]
  show ?thesis using h1 h2 by (simp add: r4 r5 r7 c)
qed

text \<open>
  The claim as stated fails when the cards in the document share a key. The first two
  cases have the same id, so the fiber of the second was replaced in the map by that of
  the first and is never deleted: after the third case arrives, the document shows four
  cards for three cases.
\<close>

theorem rendered_cases_counterexample:
  "length (cases later_view) = 3
   \<and> stale_cards twin_document = []
   \<and> stale_cards later_document = [sample_case\<lparr>symptomText := Some ''fever''\<rparr>]
   \<and> length (cards_in_order later_document @ stale_cards later_document) = 4
   \<and> cards_in_order later_document @ stale_cards later_document \<noteq> rev (cases later_view)"
proof -
  have l: "later_document
     = \<lparr>children =
          [(Some ''CASE-PAT-1-1001'',
             Card (sample_case\<lparr>caseId := ''CASE-PAT-1-1001'', symptomText := Some ''headache'',
                createdAt := 1001, updatedAt := 1001\<rparr>)),
           (Some ''CASE-PAT-1-1000'', Card (sample_case\<lparr>symptomText := Some ''fever''\<rparr>)),
           (Some ''CASE-PAT-1-1000'', Card sample_case)],
        orphans = [Card (sample_case\<lparr>symptomText := Some ''fever''\<rparr>)]\<rparr>"
    by (simp add: later_document_def twin_document_eq cases_later_view render_loaded
        commit_def reconcileChildrenArray_def enumerate_eq_zip fiber_key_def Let_def)
       (simp add: sample_case_def)
  show ?thesis
    by (simp add: l twin_document_eq cases_later_view stale_cards_def cards_in_order_def)
qed

end
